theory Spec2Isabelle
  imports Complex_Main
begin

section \<open>Top Scroller: the per-tick game logic of main.go\<close>

text \<open>
  The embedding follows \<^verbatim>\<open>src/main.go\<close>. Go's \<^verbatim>\<open>int\<close> is taken as the 64-bit
  two's-complement integer; every arithmetic operation on it is written with its
  wrap-around (\<open>wrap64\<close>). A \<^verbatim>\<open>float64\<close> is modelled as a real number: rounding is
  not modelled, and the theorems below only use comparisons and sums of positions.

  The collision library (resolv) is not part of the repository. Its state is modelled by
  what the program gives it: the list of shapes added to the space and, for every shape,
  its position, its size and the tags the program set. The position of a shape is the
  centre of its box, as in the library: a rectangle made from a top-left corner has its
  position half a size further right and down, and \<^verbatim>\<open>SetPosition\<close> puts the centre
  where the program says. The program passes the top-left corner of the sprite to
  \<^verbatim>\<open>SetPosition\<close>, so the box of a moved shape lies half a size up and left of the
  sprite. The intersection query
  itself is a parameter \<open>lib\<close> of the functions that use it: given the shapes, the space
  and the querying shape, it returns the first enemy-tagged shape found intersecting, or
  \<open>None\<close>. The callback of the source returns \<^verbatim>\<open>false\<close>, so a query stops at the
  first shape it reports.
\<close>

subsection \<open>Constants\<close>

definition screenW :: real where "screenW = 480"
definition screenH :: real where "screenH = 640"
definition playerSize :: real where "playerSize = 35"
definition playerSpeed :: real where "playerSpeed = 3"
definition bulletSize :: real where "bulletSize = 26"
definition bulletSpeed :: real where "bulletSpeed = - 6"
definition enemySize :: real where "enemySize = 38"
definition baseEnemySpeed :: real where "baseEnemySpeed = 11 / 10"
definition baseSpawnInterval :: int where "baseSpawnInterval = 32"
definition minSpawnInterval :: int where "minSpawnInterval = 12"
definition startLives :: int where "startLives = 2"
definition iframeTicks :: int where "iframeTicks = 60"
definition bgScrollSpeed :: real where "bgScrollSpeed = 12 / 10"

definition rounds :: "int list" where
  "rounds = [6, 12, 18, 24, 30, 42]"

subsection \<open>Machine integers\<close>

definition wrap64 :: "int \<Rightarrow> int" where
  "wrap64 n = (n + 2 ^ 63) mod 2 ^ 64 - 2 ^ 63"

definition int64 :: "int \<Rightarrow> bool" where
  "int64 n \<longleftrightarrow> - (2 ^ 63) \<le> n \<and> n < 2 ^ 63"

text \<open>\<^verbatim>\<open>n++\<close> and \<^verbatim>\<open>n--\<close>.\<close>

definition incr :: "int \<Rightarrow> int" where
  "incr n = wrap64 (n + 1)"

definition decr :: "int \<Rightarrow> int" where
  "decr n = wrap64 (n - 1)"

text \<open>Go's integer division truncates towards zero.\<close>

definition quot :: "int \<Rightarrow> int \<Rightarrow> int" where
  "quot a b = (if (a < 0) = (b < 0) then \<bar>a\<bar> div \<bar>b\<bar> else - (\<bar>a\<bar> div \<bar>b\<bar>))"

subsection \<open>Pacing helpers\<close>

definition enemySpeed :: "int \<Rightarrow> real" where
  "enemySpeed r = baseEnemySpeed + (3 / 10) * real_of_int r"

definition spawnInterval :: "int \<Rightarrow> int" where
  "spawnInterval r =
     (let n = wrap64 (baseSpawnInterval - wrap64 (2 * r))
      in if n < minSpawnInterval then minSpawnInterval else n)"

definition fireDelay :: "int \<Rightarrow> int" where
  "fireDelay r =
     (let d = wrap64 (10 - quot r 2)
      in if d < 8 then 8 else d)"

subsection \<open>Data\<close>

datatype tag = TagEnemy | TagBullet

type_synonym handle = nat

text \<open>A shape: the position \<open>(sh_x, sh_y)\<close> is the centre of a box of size \<open>sh_w\<close> by \<open>sh_h\<close>.\<close>

record shape =
  sh_x :: real
  sh_y :: real
  sh_w :: real
  sh_h :: real
  sh_tags :: "tag list"

record bullet =
  b_x :: real
  b_y :: real
  b_vy :: real
  b_sh :: handle

record enemy =
  e_x :: real
  e_y :: real
  e_vy :: real
  e_sh :: handle

record star =
  s_x :: real
  s_y :: real
  s_v :: real

datatype sound = SShoot | SHit

datatype key =
  KeyLeft | KeyA | KeyRight | KeyD | KeyUp | KeyW | KeyDown | KeyS | KeySpace | KeyJ

type_synonym input = "key \<Rightarrow> bool"

datatype panic = IndexOutOfRange

text \<open>
  The game state. \<open>shapes\<close> and \<open>nextSh\<close> stand for the heap of shape objects
  (\<open>nextSh\<close> is the next unused handle), \<open>space\<close> for the shapes added to
  \<^verbatim>\<open>g.space\<close>, \<open>played\<close> logs the calls of \<^verbatim>\<open>g.play\<close> (the only events the code
  raises), \<open>bgImg\<close> is the height of the background image when there is one, and
  \<open>rng\<close> is the sequence of numbers \<^verbatim>\<open>g.rng.Float64()\<close> is still to return.
\<close>

record Game =
  px :: real
  py :: real
  playerSh :: handle
  bullets :: "bullet list"
  enemies :: "enemy list"
  space :: "handle list"
  shapes :: "handle \<Rightarrow> shape"
  nextSh :: handle
  stars :: "star list"
  roundIdx :: int
  roundSpawned :: int
  roundKills :: int
  totalKills :: int
  cooldown :: int
  spawnTimer :: int
  lives :: int
  inv_t :: int
  win :: bool
  over :: bool
  played :: "sound list"
  bgImg :: "int option"
  bgOff :: real
  rng :: "nat \<Rightarrow> real"

type_synonym lib = "(handle \<Rightarrow> shape) \<Rightarrow> handle list \<Rightarrow> handle \<Rightarrow> handle option"

subsection \<open>The collision library, as the program uses it\<close>

definition newRectangleFromTopLeft :: "real \<Rightarrow> real \<Rightarrow> real \<Rightarrow> real \<Rightarrow> shape" where
  "newRectangleFromTopLeft x y w h =
     \<lparr>sh_x = x + w / 2, sh_y = y + h / 2, sh_w = w, sh_h = h, sh_tags = []\<rparr>"

definition setPosition :: "handle \<Rightarrow> real \<Rightarrow> real \<Rightarrow> (handle \<Rightarrow> shape) \<Rightarrow> (handle \<Rightarrow> shape)" where
  "setPosition h x y m = m(h := (m h)\<lparr>sh_x := x, sh_y := y\<rparr>)"

definition spaceAdd :: "handle \<Rightarrow> Game \<Rightarrow> Game" where
  "spaceAdd h g = g\<lparr>space := space g @ [h]\<rparr>"

definition spaceRemove :: "handle \<Rightarrow> Game \<Rightarrow> Game" where
  "spaceRemove h g = g\<lparr>space := removeAll h (space g)\<rparr>"

text \<open>Allocating a shape object: the next unused handle.\<close>

definition newShape :: "shape \<Rightarrow> Game \<Rightarrow> handle \<times> Game" where
  "newShape s g =
     (nextSh g, g\<lparr>shapes := (shapes g)(nextSh g := s), nextSh := Suc (nextSh g)\<rparr>)"

text \<open>
  Modelled from the spec: the library's query, which is not in the repository, as the
  spec's \<^verbatim>\<open>query_overlaps\<close> describes it: the shapes of the space with the enemy tag
  whose rectangle overlaps the querying one by the strict axis-aligned test, in the
  order they were added. The grid of cells the library looks shapes up in is not
  modelled. It is used for the concrete ticks only, where the boxes that meet cross
  each other's edges inside the grid.
\<close>

definition boxLeft :: "shape \<Rightarrow> real" where
  "boxLeft a = sh_x a - sh_w a / 2"

definition boxTop :: "shape \<Rightarrow> real" where
  "boxTop a = sh_y a - sh_h a / 2"

definition overlaps :: "shape \<Rightarrow> shape \<Rightarrow> bool" where
  "overlaps a b \<longleftrightarrow>
     boxLeft a < boxLeft b + sh_w b \<and> boxLeft a + sh_w a > boxLeft b \<and>
     boxTop a < boxTop b + sh_h b \<and> boxTop a + sh_h a > boxTop b"

definition aabb :: lib where
  "aabb m sp h =
     (case filter (\<lambda>k. k \<noteq> h \<and> TagEnemy \<in> set (sh_tags (m k)) \<and> overlaps (m h) (m k)) sp of
        [] \<Rightarrow> None
      | k # _ \<Rightarrow> Some k)"

subsection \<open>Sound and damage\<close>

definition play :: "sound \<Rightarrow> Game \<Rightarrow> Game" where
  "play s g = g\<lparr>played := played g @ [s]\<rparr>"

definition loseLife :: "Game \<Rightarrow> Game" where
  "loseLife g =
     (if inv_t g > 0 \<or> win g \<or> over g then g
      else
        let g1 = g\<lparr>lives := decr (lives g)\<rparr>;
            g2 = g1\<lparr>inv_t := iframeTicks\<rparr>;
            g3 = play SHit g2
        in if lives g3 < 0 then g3\<lparr>over := True\<rparr> else g3)"

subsection \<open>The random source\<close>

definition rngFloat64 :: "(nat \<Rightarrow> real) \<Rightarrow> real \<times> (nat \<Rightarrow> real)" where
  "rngFloat64 r = (r 0, \<lambda>n. r (Suc n))"

subsection \<open>The phases of \<^verbatim>\<open>Update\<close>, in the order of the source\<close>

text \<open>The star field, used when there is no background image.\<close>

fun starsLoop :: "star list \<Rightarrow> (nat \<Rightarrow> real) \<Rightarrow> star list \<times> (nat \<Rightarrow> real)" where
  "starsLoop [] r = ([], r)"
| "starsLoop (s # ss) r =
     (let s1 = s\<lparr>s_y := s_y s + s_v s\<rparr>
      in if s_y s1 > screenH
         then (let (x, r1) = rngFloat64 r;
                   s2 = s1\<lparr>s_y := - 2, s_x := x * (screenW - 2)\<rparr>;
                   (rest, r2) = starsLoop ss r1
               in (s2 # rest, r2))
         else (let (rest, r2) = starsLoop ss r in (s1 # rest, r2)))"

definition scrollBackground :: "Game \<Rightarrow> Game" where
  "scrollBackground g =
     (case bgImg g of
        Some h \<Rightarrow>
          (let g1 = g\<lparr>bgOff := bgOff g + bgScrollSpeed\<rparr>
           in if h > 0 \<and> bgOff g1 \<ge> real_of_int h
              then g1\<lparr>bgOff := bgOff g1 - real_of_int h\<rparr> else g1)
      | None \<Rightarrow>
          (let (ss, r) = starsLoop (stars g) (rng g) in g\<lparr>stars := ss, rng := r\<rparr>))"

text \<open>The same phase in the second copy of the file (\<^verbatim>\<open>src/unnamed/part_000\<close>).\<close>

definition scrollBackground_part000 :: "Game \<Rightarrow> Game" where
  "scrollBackground_part000 g =
     (case bgImg g of
        Some h \<Rightarrow> g\<lparr>bgOff := bgOff g + bgScrollSpeed\<rparr>
      | None \<Rightarrow> g)"

definition movePlayer :: "input \<Rightarrow> Game \<Rightarrow> Game" where
  "movePlayer inp g =
     (let g1 = (if inp KeyLeft \<or> inp KeyA then g\<lparr>px := px g - playerSpeed\<rparr> else g);
          g2 = (if inp KeyRight \<or> inp KeyD then g1\<lparr>px := px g1 + playerSpeed\<rparr> else g1);
          g3 = (if inp KeyUp \<or> inp KeyW then g2\<lparr>py := py g2 - playerSpeed\<rparr> else g2);
          g4 = (if inp KeyDown \<or> inp KeyS then g3\<lparr>py := py g3 + playerSpeed\<rparr> else g3);
          g5 = (if px g4 < 0 then g4\<lparr>px := 0\<rparr> else g4);
          g6 = (if px g5 > screenW - playerSize then g5\<lparr>px := screenW - playerSize\<rparr> else g5);
          g7 = (if py g6 < 0 then g6\<lparr>py := 0\<rparr> else g6);
          g8 = (if py g7 > screenH - playerSize then g7\<lparr>py := screenH - playerSize\<rparr> else g7)
      in g8\<lparr>shapes := setPosition (playerSh g8) (px g8) (py g8) (shapes g8)\<rparr>)"

definition tickInv :: "Game \<Rightarrow> Game" where
  "tickInv g = (if inv_t g > 0 then g\<lparr>inv_t := decr (inv_t g)\<rparr> else g)"

definition shoot :: "input \<Rightarrow> Game \<Rightarrow> Game" where
  "shoot inp g =
     (let g1 = (if cooldown g > 0 then g\<lparr>cooldown := decr (cooldown g)\<rparr> else g)
      in if (inp KeySpace \<or> inp KeyJ) \<and> cooldown g1 = 0
         then (let bx = px g1 + playerSize / 2 - bulletSize / 2;
                   by = py g1 - bulletSize;
                   (sh, g2) = newShape ((newRectangleFromTopLeft bx by bulletSize bulletSize)
                                          \<lparr>sh_tags := [TagBullet]\<rparr>) g1;
                   g3 = spaceAdd sh g2;
                   g4 = g3\<lparr>bullets := bullets g3 @
                           [\<lparr>b_x = bx, b_y = by, b_vy = bulletSpeed, b_sh = sh\<rparr>]\<rparr>;
                   g5 = g4\<lparr>cooldown := fireDelay (roundIdx g4)\<rparr>
               in play SShoot g5)
         else g1)"

text \<open>\<^verbatim>\<open>rounds[i]\<close>: an index out of range panics.\<close>

definition roundsAt :: "int \<Rightarrow> panic + int" where
  "roundsAt i =
     (if 0 \<le> i \<and> i < int (length rounds) then Inr (rounds ! nat i) else Inl IndexOutOfRange)"

definition spawnEnemies :: "Game \<Rightarrow> panic + Game" where
  "spawnEnemies g =
     (let g1 = g\<lparr>spawnTimer := decr (spawnTimer g)\<rparr>
      in if spawnTimer g1 \<le> 0 \<and> roundIdx g1 < int (length rounds)
         then (case roundsAt (roundIdx g1) of
                 Inl e \<Rightarrow> Inl e
               | Inr quota \<Rightarrow>
                   (let g2 =
                      (if roundSpawned g1 < quota
                       then (let (x, r) = rngFloat64 (rng g1);
                                 g1a = g1\<lparr>rng := r\<rparr>;
                                 ex = x * (screenW - enemySize);
                                 (sh, g1b) = newShape ((newRectangleFromTopLeft ex (- enemySize)
                                                enemySize enemySize)\<lparr>sh_tags := [TagEnemy]\<rparr>) g1a;
                                 g1c = spaceAdd sh g1b;
                                 g1d = g1c\<lparr>enemies := enemies g1c @
                                          [\<lparr>e_x = ex, e_y = - enemySize,
                                            e_vy = enemySpeed (roundIdx g1c), e_sh = sh\<rparr>]\<rparr>
                             in g1d\<lparr>roundSpawned := incr (roundSpawned g1d)\<rparr>)
                       else g1)
                    in Inr (g2\<lparr>spawnTimer := spawnInterval (roundIdx g2)\<rparr>)))
         else Inr g1)"

text \<open>
  One pass of the bullet loop. The state of the loop is the game, the \<^verbatim>\<open>dead\<close> map
  and the bullets kept so far (\<^verbatim>\<open>g.bullets[:bw]\<close>).
\<close>

definition bulletStep :: "lib \<Rightarrow> bullet \<Rightarrow> Game \<times> handle set \<times> bullet list
    \<Rightarrow> Game \<times> handle set \<times> bullet list" where
  "bulletStep lib b st =
     (case st of (g, dead, kept) \<Rightarrow>
        let b1 = b\<lparr>b_y := b_y b + b_vy b\<rparr>;
            g1 = g\<lparr>shapes := setPosition (b_sh b1) (b_x b1) (b_y b1) (shapes g)\<rparr>;
            found = lib (shapes g1) (space g1) (b_sh b1);
            dead1 = (case found of None \<Rightarrow> dead | Some k \<Rightarrow> insert k dead);
            hit = (found \<noteq> None)
        in if \<not> hit \<and> b_y b1 + bulletSize > 0
           then (g1, dead1, kept @ [b1])
           else (let g2 = spaceRemove (b_sh b1) g1
                 in if hit
                    then (play SHit (g2\<lparr>roundKills := incr (roundKills g2),
                                        totalKills := incr (totalKills g2)\<rparr>), dead1, kept)
                    else (g2, dead1, kept)))"

fun bulletLoop :: "lib \<Rightarrow> bullet list \<Rightarrow> Game \<times> handle set \<times> bullet list
    \<Rightarrow> Game \<times> handle set \<times> bullet list" where
  "bulletLoop lib [] st = st"
| "bulletLoop lib (b # bs) st = bulletLoop lib bs (bulletStep lib b st)"

definition moveBullets :: "lib \<Rightarrow> Game \<Rightarrow> Game \<times> handle set" where
  "moveBullets lib g =
     (case bulletLoop lib (bullets g) (g, {}, []) of
        (g1, dead, kept) \<Rightarrow> (g1\<lparr>bullets := kept\<rparr>, dead))"

text \<open>One pass of the enemy loop, in its two parts.\<close>

definition enemyTouch :: "lib \<Rightarrow> Game \<Rightarrow> Game" where
  "enemyTouch lib g =
     (if inv_t g = 0
      then (let hitP = (lib (shapes g) (space g) (playerSh g) \<noteq> None)
            in if hitP then loseLife g else g)
      else g)"

definition removeDeadOrEscaped :: "handle set \<Rightarrow> enemy \<Rightarrow> Game \<times> enemy list
    \<Rightarrow> Game \<times> enemy list" where
  "removeDeadOrEscaped dead e st =
     (case st of (g, kept) \<Rightarrow>
        if e_sh e \<in> dead then (spaceRemove (e_sh e) g, kept)
        else if e_y e > screenH then (loseLife (spaceRemove (e_sh e) g), kept)
        else (g, kept @ [e]))"

definition enemyStep :: "lib \<Rightarrow> handle set \<Rightarrow> enemy \<Rightarrow> Game \<times> enemy list
    \<Rightarrow> Game \<times> enemy list" where
  "enemyStep lib dead e st =
     (case st of (g, kept) \<Rightarrow>
        let e1 = e\<lparr>e_y := e_y e + e_vy e\<rparr>;
            g1 = g\<lparr>shapes := setPosition (e_sh e1) (e_x e1) (e_y e1) (shapes g)\<rparr>;
            g2 = enemyTouch lib g1
        in removeDeadOrEscaped dead e1 (g2, kept))"

fun enemyLoop :: "lib \<Rightarrow> handle set \<Rightarrow> enemy list \<Rightarrow> Game \<times> enemy list
    \<Rightarrow> Game \<times> enemy list" where
  "enemyLoop lib dead [] st = st"
| "enemyLoop lib dead (e # es) st = enemyLoop lib dead es (enemyStep lib dead e st)"

definition moveEnemies :: "lib \<Rightarrow> Game \<times> handle set \<Rightarrow> Game" where
  "moveEnemies lib gd =
     (case gd of (g, dead) \<Rightarrow>
        (case enemyLoop lib dead (enemies g) (g, []) of
           (g1, kept) \<Rightarrow> g1\<lparr>enemies := kept\<rparr>))"

definition roundComplete :: "Game \<Rightarrow> panic + Game" where
  "roundComplete g =
     (if roundIdx g < int (length rounds)
      then (case roundsAt (roundIdx g) of
              Inl e \<Rightarrow> Inl e
            | Inr quota \<Rightarrow>
                if roundKills g \<ge> quota
                then (let g1 = g\<lparr>roundIdx := incr (roundIdx g)\<rparr>;
                          g2 = g1\<lparr>roundKills := 0, roundSpawned := 0\<rparr>;
                          g3 = g2\<lparr>spawnTimer := spawnInterval (roundIdx g2)\<rparr>
                      in Inr (if roundIdx g3 \<ge> int (length rounds)
                              then g3\<lparr>win := True\<rparr> else g3))
                else Inr g)
      else Inr g)"

subsection \<open>\<^verbatim>\<open>Update\<close>\<close>

text \<open>The state at the end of the enemy loop, before the round check.\<close>

definition beforeRoundCheck :: "lib \<Rightarrow> input \<Rightarrow> Game \<Rightarrow> panic + Game" where
  "beforeRoundCheck lib inp g =
     (case spawnEnemies (shoot inp (tickInv (movePlayer inp g))) of
        Inl e \<Rightarrow> Inl e
      | Inr g1 \<Rightarrow> Inr (moveEnemies lib (moveBullets lib g1)))"

definition gameplay :: "lib \<Rightarrow> input \<Rightarrow> Game \<Rightarrow> panic + Game" where
  "gameplay lib inp g =
     (case beforeRoundCheck lib inp g of
        Inl e \<Rightarrow> Inl e
      | Inr g1 \<Rightarrow> roundComplete g1)"

definition Update :: "lib \<Rightarrow> input \<Rightarrow> Game \<Rightarrow> panic + Game" where
  "Update lib inp g =
     (if win g \<or> over g then Inr g
      else gameplay lib inp (scrollBackground g))"

definition Update_part000 :: "lib \<Rightarrow> input \<Rightarrow> Game \<Rightarrow> panic + Game" where
  "Update_part000 lib inp g =
     (if win g \<or> over g then Inr g
      else gameplay lib inp (scrollBackground_part000 g))"

text \<open>A run: one \<^verbatim>\<open>Update\<close> per input of the list; a panic ends it.\<close>

fun run :: "lib \<Rightarrow> input list \<Rightarrow> Game \<Rightarrow> panic + Game" where
  "run lib [] g = Inr g"
| "run lib (i # is) g =
     (case Update lib i g of Inl e \<Rightarrow> Inl e | Inr g1 \<Rightarrow> run lib is g1)"

fun run_part000 :: "lib \<Rightarrow> input list \<Rightarrow> Game \<Rightarrow> panic + Game" where
  "run_part000 lib [] g = Inr g"
| "run_part000 lib (i # is) g =
     (case Update_part000 lib i g of Inl e \<Rightarrow> Inl e | Inr g1 \<Rightarrow> run_part000 lib is g1)"

subsection \<open>\<^verbatim>\<open>newGame\<close>\<close>

fun initStars :: "nat \<Rightarrow> (nat \<Rightarrow> real) \<Rightarrow> star list \<times> (nat \<Rightarrow> real)" where
  "initStars 0 r = ([], r)"
| "initStars (Suc n) r =
     (let (x, r1) = rngFloat64 r;
          (y, r2) = rngFloat64 r1;
          (v, r3) = rngFloat64 r2;
          (rest, r4) = initStars n r3
      in (\<lparr>s_x = x * (screenW - 2), s_y = y * screenH - screenH, s_v = 1 / 2 + v\<rparr> # rest, r4))"

text \<open>
  The seed of the random source and the background image that was found (its height)
  are the two things \<^verbatim>\<open>newGame\<close> takes from outside.
\<close>

definition newGame :: "(nat \<Rightarrow> real) \<Rightarrow> int option \<Rightarrow> Game" where
  "newGame seed img =
     (let x0 = 240 - playerSize / 2;
          y0 = screenH - 2 * playerSize;
          (ss, r) = initStars 60 seed
      in \<lparr>px = x0, py = y0, playerSh = 0,
          bullets = [], enemies = [], space = [0],
          shapes = (\<lambda>_. newRectangleFromTopLeft 0 0 0 0)
                     (0 := newRectangleFromTopLeft x0 y0 playerSize playerSize),
          nextSh = 1, stars = ss,
          roundIdx = 0, roundSpawned = 0, roundKills = 0, totalKills = 0,
          cooldown = 0, spawnTimer = spawnInterval 0,
          lives = startLives, inv_t = 0, win = False, over = False,
          played = [], bgImg = img, bgOff = 0, rng = r\<rparr>)"

text \<open>The states a game can be in between two ticks.\<close>

inductive reachable :: "lib \<Rightarrow> Game \<Rightarrow> bool" for lib :: lib where
  start: "reachable lib (newGame seed img)"
| tick: "reachable lib g \<Longrightarrow> Update lib inp g = Inr g' \<Longrightarrow> reachable lib g'"

subsection \<open>Notions used in the proofs\<close>

text \<open>The fields that decide the course of a game.\<close>

definition core :: "Game \<Rightarrow> int \<times> int \<times> int \<times> int \<times> bool \<times> bool" where
  "core g = (roundIdx g, roundSpawned g, lives g, inv_t g, win g, over g)"

text \<open>
  What a call of \<^verbatim>\<open>loseLife\<close> that is not blocked does to these fields: \<open>hurt g g'\<close>
  says that \<open>g'\<close> is \<open>g\<close> after exactly one such call.
\<close>

definition hurt :: "Game \<Rightarrow> Game \<Rightarrow> bool" where
  "hurt g g' \<longleftrightarrow>
     inv_t g \<le> 0 \<and> \<not> win g \<and> \<not> over g \<and>
     roundIdx g' = roundIdx g \<and> roundSpawned g' = roundSpawned g \<and>
     lives g' = decr (lives g) \<and> inv_t g' = iframeTicks \<and> win g' = win g \<and>
     over g' = (decr (lives g) < 0)"

text \<open>The round counters are in range, and the last round is over only in a won game.\<close>

definition roundsOk :: "Game \<Rightarrow> bool" where
  "roundsOk g \<longleftrightarrow>
     0 \<le> roundIdx g \<and> roundIdx g \<le> int (length rounds) \<and>
     (roundIdx g < int (length rounds) \<longrightarrow>
        0 \<le> roundSpawned g \<and> roundSpawned g \<le> rounds ! nat (roundIdx g)) \<and>
     (int (length rounds) \<le> roundIdx g \<longrightarrow> win g)"

text \<open>The lives are in range, and below 0 only in a lost game.\<close>

definition livesOk :: "Game \<Rightarrow> bool" where
  "livesOk g \<longleftrightarrow> - 1 \<le> lives g \<and> lives g \<le> startLives \<and> (lives g < 0 \<longrightarrow> over g)"

subsection \<open>Scenarios\<close>

text \<open>A hit that finds the invulnerability window expired.\<close>

definition unblockedHit :: "Game \<Rightarrow> Game" where
  "unblockedHit g = loseLife (g\<lparr>inv_t := 0\<rparr>)"

text \<open>A game that has been lost.\<close>

definition lostGame :: Game where
  "lostGame = (newGame (\<lambda>_. 0) None)\<lparr>lives := - 1, over := True\<rparr>"

text \<open>
  A playing field for concrete ticks: the start state without stars, with a background
  image of height 0, and a random source that always returns the number given.
\<close>

definition stage :: "real \<Rightarrow> Game" where
  "stage r =
     \<lparr>px = 445 / 2, py = 570, playerSh = 0, bullets = [], enemies = [], space = [0],
      shapes = (\<lambda>_. newRectangleFromTopLeft 0 0 0 0)
                 (0 := newRectangleFromTopLeft (445 / 2) 570 playerSize playerSize),
      nextSh = 1, stars = [],
      roundIdx = 0, roundSpawned = 0, roundKills = 0, totalKills = 0,
      cooldown = 0, spawnTimer = 32, lives = 2, inv_t = 0, win = False, over = False,
      played = [], bgImg = Some 0, bgOff = 0, rng = (\<lambda>_. r)\<rparr>"

text \<open>
  A bullet or an enemy at \<open>(x, y)\<close> between two ticks: its shape has been moved by the
  loop of the tick before, so its position is \<open>(x, y)\<close>.
\<close>

definition playerAt :: "real \<Rightarrow> real \<Rightarrow> Game \<Rightarrow> Game" where
  "playerAt x y g =
     g\<lparr>px := x, py := y, shapes := setPosition (playerSh g) x y (shapes g)\<rparr>"

definition withBullet :: "real \<Rightarrow> real \<Rightarrow> Game \<Rightarrow> Game" where
  "withBullet x y g =
     g\<lparr>bullets := bullets g @ [\<lparr>b_x = x, b_y = y, b_vy = bulletSpeed, b_sh = nextSh g\<rparr>],
       space := space g @ [nextSh g],
       shapes := setPosition (nextSh g) x y ((shapes g)(nextSh g :=
          (newRectangleFromTopLeft x y bulletSize bulletSize)\<lparr>sh_tags := [TagBullet]\<rparr>)),
       nextSh := Suc (nextSh g)\<rparr>"

definition withEnemy :: "real \<Rightarrow> real \<Rightarrow> Game \<Rightarrow> Game" where
  "withEnemy x y g =
     g\<lparr>enemies := enemies g @
         [\<lparr>e_x = x, e_y = y, e_vy = enemySpeed (roundIdx g), e_sh = nextSh g\<rparr>],
       space := space g @ [nextSh g],
       shapes := setPosition (nextSh g) x y ((shapes g)(nextSh g :=
          (newRectangleFromTopLeft x y enemySize enemySize)\<lparr>sh_tags := [TagEnemy]\<rparr>)),
       nextSh := Suc (nextSh g)\<rparr>"

definition noKeys :: input where
  "noKeys = (\<lambda>_. False)"

text \<open>What a field of the state is after a tick, when the tick returns.\<close>

definition after :: "panic + Game \<Rightarrow> (Game \<Rightarrow> 'a) \<Rightarrow> 'a option" where
  "after r f = (case r of Inl e \<Rightarrow> None | Inr g \<Rightarrow> Some (f g))"

text \<open>
  The states of the concrete ticks below: two enemies, one on the player and one at the
  bottom edge (\<open>crowded\<close>); the last kill of the first round (\<open>roundEnd\<close>); a round
  whose quota of spawns is met (\<open>quotaMet\<close>); a bullet that reaches the top edge
  exactly (\<open>grazing\<close>) and one in the middle of the screen (\<open>cruising\<close>); two bullets,
  24 apart, that reach the same enemy in one tick (\<open>doubleHit\<close>); the
  last enemy of the last round touching a player with no life left (\<open>lastStand\<close>); an
  enemy about to pass the bottom (\<open>escapee\<close> in \<open>atBottom\<close>).
\<close>

definition crowded :: Game where
  "crowded = withEnemy 10 (1279 / 2) (withEnemy (445 / 2) 560 (stage 0))"

definition roundEnd :: Game where
  "roundEnd = withBullet 100 120 (withEnemy 100 100
     ((stage 0)\<lparr>roundSpawned := 6, roundKills := 5, totalKills := 5\<rparr>))"

definition quotaMet :: Game where
  "quotaMet = (stage 0)\<lparr>roundSpawned := 6, spawnTimer := 1\<rparr>"

definition grazing :: Game where
  "grazing = withBullet 227 (- 20) (stage 0)"


definition lastStand :: Game where
  "lastStand = withEnemy (445 / 2) (2657 / 5)
     ((stage 0)\<lparr>roundIdx := 5, roundSpawned := 42, roundKills := 41, totalKills := 131,
        lives := 0\<rparr>)"

definition escapee :: enemy where
  "escapee = \<lparr>e_x = 100, e_y = 639, e_vy = 11 / 10, e_sh = 1\<rparr>"

definition atBottom :: Game where
  "atBottom = withEnemy 100 639 (stage 0)"

definition cruising :: Game where
  "cruising = withBullet 227 100 (stage 0)"

section \<open>Properties\<close>

subsection \<open>Arithmetic of the 64-bit integers\<close>

lemma wrap64_id: "int64 n \<Longrightarrow> wrap64 n = n"
  by (simp add: wrap64_def int64_def)

lemma wrap64_range: "int64 (wrap64 n)"
  by (simp add: wrap64_def int64_def)

lemma wrap64_above: "2 ^ 63 \<le> n \<Longrightarrow> n < 3 * 2 ^ 63 \<Longrightarrow> wrap64 n = n - 2 ^ 64"
proof -
  assume a: "2 ^ 63 \<le> n" "n < 3 * 2 ^ 63"
  have "(n + 2 ^ 63) mod 2 ^ 64 = (n + 2 ^ 63 - 2 ^ 64) mod 2 ^ 64"
    by (metis minus_mod_self2)
  also have "\<dots> = n + 2 ^ 63 - 2 ^ 64"
    using a by (intro mod_pos_pos_trivial) simp_all
  finally show ?thesis by (simp add: wrap64_def)
qed

subsection \<open>The start state\<close>

lemma newGame_flags:
  "lives (newGame seed img) = startLives" "inv_t (newGame seed img) = 0"
  "\<not> win (newGame seed img)" "\<not> over (newGame seed img)"
  "roundIdx (newGame seed img) = 0" "roundSpawned (newGame seed img) = 0"
  by (simp_all add: newGame_def Let_def split: prod.splits)

subsection \<open>What each phase leaves alone\<close>

lemma scrollBackground_core: "core (scrollBackground g) = core g"
  by (simp add: scrollBackground_def core_def Let_def split: option.splits prod.splits)

lemma scrollBackground_part000_core: "core (scrollBackground_part000 g) = core g"
  by (simp add: scrollBackground_part000_def core_def split: option.splits)

lemma movePlayer_core: "core (movePlayer inp g) = core g"
  by (simp add: movePlayer_def core_def Let_def)

lemma shoot_core: "core (shoot inp g) = core g"
  by (simp add: shoot_def core_def Let_def newShape_def spaceAdd_def play_def split: prod.splits)

lemma tickInv_core:
  "core (tickInv g) = (roundIdx g, roundSpawned g, lives g,
      (if inv_t g > 0 then decr (inv_t g) else inv_t g), win g, over g)"
  by (simp add: tickInv_def core_def)

lemma bulletStep_core: "core (fst (bulletStep lib b st)) = core (fst st)"
  by (cases st) (simp add: bulletStep_def core_def Let_def spaceRemove_def play_def)

lemma bulletLoop_core: "core (fst (bulletLoop lib bs st)) = core (fst st)"
  by (induction bs arbitrary: st) (simp_all add: bulletStep_core)

lemma moveBullets_core: "core (fst (moveBullets lib g)) = core g"
  using bulletLoop_core [of lib "bullets g" "(g, {}, [])"]
  by (auto simp: moveBullets_def core_def split: prod.splits)

lemma spawnEnemies_core:
  "spawnEnemies g = Inr g' \<Longrightarrow>
     roundIdx g' = roundIdx g \<and> lives g' = lives g \<and> inv_t g' = inv_t g \<and>
     win g' = win g \<and> over g' = over g"
  by (auto simp: spawnEnemies_def Let_def newShape_def spaceAdd_def
      split: if_splits sum.splits prod.splits)

lemma loseLife_cases: "core (loseLife g) = core g \<or> hurt g (loseLife g)"
  by (simp add: loseLife_def hurt_def core_def Let_def play_def)

lemma loseLife_after_hurt: "hurt g0 g \<Longrightarrow> loseLife g = g"
  by (simp add: loseLife_def hurt_def iframeTicks_def)

lemma hurt_core: "hurt g0 g \<Longrightarrow> core g' = core g \<Longrightarrow> hurt g0 g'"
  by (simp add: hurt_def core_def)

lemma hurt_core0: "hurt g0 g \<Longrightarrow> core g1 = core g0 \<Longrightarrow> hurt g1 g"
  by (simp add: hurt_def core_def)

lemma setPosition_core: "core (g\<lparr>shapes := m\<rparr>) = core g"
  by (simp add: core_def)

lemma spaceRemove_core: "core (spaceRemove h g) = core g"
  by (simp add: core_def spaceRemove_def)

lemma enemyTouch_cases:
  "core (enemyTouch lib g) = core g \<or> hurt g (enemyTouch lib g)"
  using loseLife_cases [of g] by (auto simp: enemyTouch_def Let_def)

lemma enemyTouch_after_hurt: "hurt g0 g \<Longrightarrow> enemyTouch lib g = g"
  by (simp add: enemyTouch_def hurt_def iframeTicks_def)

lemma removeDeadOrEscaped_cases:
  "core (fst (removeDeadOrEscaped dead e (g, kept))) = core g \<or>
   hurt g (fst (removeDeadOrEscaped dead e (g, kept)))"
  using loseLife_cases [of "spaceRemove (e_sh e) g"]
  by (auto simp: removeDeadOrEscaped_def spaceRemove_core intro: hurt_core0)

lemma removeDeadOrEscaped_after_hurt:
  "hurt g0 g \<Longrightarrow> core (fst (removeDeadOrEscaped dead e (g, kept))) = core g"
proof -
  assume h: "hurt g0 g"
  then have "hurt g0 (spaceRemove (e_sh e) g)"
    by (rule hurt_core) (simp add: spaceRemove_core)
  then have "loseLife (spaceRemove (e_sh e) g) = spaceRemove (e_sh e) g"
    by (rule loseLife_after_hurt)
  then show ?thesis
    by (simp add: removeDeadOrEscaped_def spaceRemove_core)
qed

lemma enemyStep_unfold:
  "enemyStep lib dead e (g, kept) =
     removeDeadOrEscaped dead (e\<lparr>e_y := e_y e + e_vy e\<rparr>)
       (enemyTouch lib (g\<lparr>shapes := setPosition (e_sh e) (e_x e) (e_y e + e_vy e) (shapes g)\<rparr>), kept)"
  by (simp add: enemyStep_def Let_def)

lemma enemyStep_cases:
  "core (fst (enemyStep lib dead e (g, kept))) = core g \<or> hurt g (fst (enemyStep lib dead e (g, kept)))"
proof -
  define e1 where "e1 = e\<lparr>e_y := e_y e + e_vy e\<rparr>"
  define g1 where "g1 = g\<lparr>shapes := setPosition (e_sh e) (e_x e) (e_y e + e_vy e) (shapes g)\<rparr>"
  define g2 where "g2 = enemyTouch lib g1"
  define g3 where "g3 = fst (removeDeadOrEscaped dead e1 (g2, kept))"
  have st: "fst (enemyStep lib dead e (g, kept)) = g3"
    by (simp add: enemyStep_unfold g3_def g2_def g1_def e1_def)
  have c1: "core g1 = core g" unfolding g1_def by (rule setPosition_core)
  have "core g2 = core g1 \<or> hurt g1 g2"
    unfolding g2_def by (rule enemyTouch_cases)
  then have "core g3 = core g \<or> hurt g g3"
  proof
    assume a: "core g2 = core g1"
    have "core g3 = core g2 \<or> hurt g2 g3"
      unfolding g3_def by (rule removeDeadOrEscaped_cases)
    then show ?thesis
    proof
      assume "core g3 = core g2"
      with a c1 show ?thesis by simp
    next
      assume "hurt g2 g3"
      then have "hurt g g3" by (rule hurt_core0) (simp add: a c1)
      then show ?thesis ..
    qed
  next
    assume h: "hurt g1 g2"
    then have h': "hurt g g2" by (rule hurt_core0) (simp add: c1)
    from h have "core g3 = core g2"
      unfolding g3_def by (rule removeDeadOrEscaped_after_hurt)
    with h' have "hurt g g3" by (rule hurt_core)
    then show ?thesis ..
  qed
  with st show ?thesis by simp
qed

lemma enemyStep_after_hurt:
  assumes "hurt g0 g"
  shows "core (fst (enemyStep lib dead e (g, kept))) = core g"
proof -
  define e1 where "e1 = e\<lparr>e_y := e_y e + e_vy e\<rparr>"
  define g1 where "g1 = g\<lparr>shapes := setPosition (e_sh e) (e_x e) (e_y e + e_vy e) (shapes g)\<rparr>"
  have c1: "core g1 = core g" unfolding g1_def by (rule setPosition_core)
  have h1: "hurt g0 g1" using assms c1 by (rule hurt_core)
  then have t: "enemyTouch lib g1 = g1" by (rule enemyTouch_after_hurt)
  have "core (fst (removeDeadOrEscaped dead e1 (g1, kept))) = core g1"
    using h1 by (rule removeDeadOrEscaped_after_hurt)
  moreover have "enemyStep lib dead e (g, kept) = removeDeadOrEscaped dead e1 (g1, kept)"
    using t by (simp add: enemyStep_unfold g1_def e1_def)
  ultimately show ?thesis using c1 by simp
qed

lemma enemyLoop_after_hurt:
  "hurt g0 (fst st) \<Longrightarrow> core (fst (enemyLoop lib dead es st)) = core (fst st)"
proof (induction es arbitrary: st)
  case Nil
  then show ?case by simp
next
  case (Cons e es)
  obtain g kept where st: "st = (g, kept)" by (cases st)
  with Cons.prems have h: "hurt g0 g" by simp
  then have c: "core (fst (enemyStep lib dead e (g, kept))) = core g"
    by (rule enemyStep_after_hurt)
  with h have "hurt g0 (fst (enemyStep lib dead e (g, kept)))"
    by (rule hurt_core)
  then have "core (fst (enemyLoop lib dead es (enemyStep lib dead e (g, kept)))) =
      core (fst (enemyStep lib dead e (g, kept)))"
    by (rule Cons.IH)
  with c st show ?case by simp
qed

lemma enemyLoop_cases:
  "core (fst (enemyLoop lib dead es (g, kept))) = core g \<or>
   hurt g (fst (enemyLoop lib dead es (g, kept)))"
proof (induction es arbitrary: g kept)
  case Nil
  then show ?case by simp
next
  case (Cons e es)
  obtain g1 kept1 where s1: "enemyStep lib dead e (g, kept) = (g1, kept1)"
    by (cases "enemyStep lib dead e (g, kept)")
  from enemyStep_cases [of lib dead e g kept] s1
  have "core g1 = core g \<or> hurt g g1" by simp
  then show ?case
  proof
    assume c: "core g1 = core g"
    from Cons.IH [of g1 kept1] show ?thesis
    proof
      assume "core (fst (enemyLoop lib dead es (g1, kept1))) = core g1"
      with c s1 show ?thesis by simp
    next
      assume "hurt g1 (fst (enemyLoop lib dead es (g1, kept1)))"
      then have "hurt g (fst (enemyLoop lib dead es (g1, kept1)))"
        by (rule hurt_core0) (simp add: c)
      with s1 show ?thesis by simp
    qed
  next
    assume h: "hurt g g1"
    then have "core (fst (enemyLoop lib dead es (g1, kept1))) = core (fst (g1, kept1))"
      by (intro enemyLoop_after_hurt) simp
    with h have "hurt g (fst (enemyLoop lib dead es (g1, kept1)))"
      by (intro hurt_core [OF h]) simp
    with s1 show ?thesis by simp
  qed
qed

lemma moveEnemies_cases:
  "core (moveEnemies lib (g, dead)) = core g \<or> hurt g (moveEnemies lib (g, dead))"
proof -
  obtain g1 kept where l: "enemyLoop lib dead (enemies g) (g, []) = (g1, kept)"
    by (cases "enemyLoop lib dead (enemies g) (g, [])")
  then have m: "moveEnemies lib (g, dead) = g1\<lparr>enemies := kept\<rparr>"
    by (simp add: moveEnemies_def)
  have c: "core (g1\<lparr>enemies := kept\<rparr>) = core g1" by (simp add: core_def)
  from enemyLoop_cases [of lib dead "enemies g" g "[]"] l
  have "core g1 = core g \<or> hurt g g1" by simp
  then show ?thesis
  proof
    assume "core g1 = core g" with m c show ?thesis by simp
  next
    assume "hurt g g1"
    then have "hurt g (g1\<lparr>enemies := kept\<rparr>)" by (rule hurt_core) (rule c)
    with m show ?thesis by simp
  qed
qed

subsection \<open>A finished game is frozen\<close>

lemma run_frozen: "win g \<or> over g \<Longrightarrow> run lib inps g = Inr g"
  by (induction inps) (auto simp: Update_def)

lemma run_part000_frozen: "win g \<or> over g \<Longrightarrow> run_part000 lib inps g = Inr g"
  by (induction inps) (auto simp: Update_part000_def)

lemma over_lostGame: "over lostGame"
  by (simp add: lostGame_def)

text \<open>
  Claim C1. In a state where \<open>win\<close> or \<open>over\<close> is set, \<^verbatim>\<open>Update\<close> returns the state as
  it is, whatever the input and the collision library: positions, entities, space,
  timers, counters and the log of sounds are all the same. So is the state after any
  number of further ticks. Both copies of the file behave so.
\<close>

theorem C1_frozen:
  "win g \<or> over g \<Longrightarrow>
     Update lib inp g = Inr g \<and> Update_part000 lib inp g = Inr g \<and>
     run lib inps g = Inr g \<and> run_part000 lib inps g = Inr g"
  by (simp add: run_frozen run_part000_frozen Update_def Update_part000_def)

theorem C1_frozen_witness:
  "(win lostGame \<or> over lostGame) \<and>
   Update aabb (\<lambda>_. True) lostGame = Inr lostGame \<and>
   Update_part000 aabb (\<lambda>_. True) lostGame = Inr lostGame \<and>
   run aabb [\<lambda>_. True, \<lambda>_. False] lostGame = Inr lostGame \<and>
   run_part000 aabb [\<lambda>_. True, \<lambda>_. False] lostGame = Inr lostGame"
  using C1_frozen [of lostGame aabb "\<lambda>_. True" "[\<lambda>_. True, \<lambda>_. False]"] over_lostGame
  by blast

subsection \<open>Losing a life\<close>

lemma unblockedHit_over: "over g \<Longrightarrow> over (unblockedHit g)"
  by (simp add: unblockedHit_def loseLife_def)

lemma unblockedHit_step:
  "\<not> win h \<Longrightarrow> \<not> over h \<Longrightarrow> decr (lives h) = lives h - 1 \<Longrightarrow>
     lives (unblockedHit h) = lives h - 1 \<and> \<not> win (unblockedHit h) \<and>
     (over (unblockedHit h) \<longleftrightarrow> lives h - 1 < 0)"
  by (simp add: unblockedHit_def loseLife_def Let_def play_def)

lemma unblockedHits_over: "over g \<Longrightarrow> over ((unblockedHit ^^ n) g)"
  by (induction n) (simp_all add: unblockedHit_over)

lemma unblockedHits_count:
  "0 \<le> lives g \<Longrightarrow> lives g < 2 ^ 63 \<Longrightarrow> \<not> win g \<Longrightarrow> \<not> over g \<Longrightarrow> int n \<le> lives g + 1 \<Longrightarrow>
     lives ((unblockedHit ^^ n) g) = lives g - int n \<and> \<not> win ((unblockedHit ^^ n) g) \<and>
     (over ((unblockedHit ^^ n) g) \<longleftrightarrow> int n = lives g + 1)"
proof (induction n)
  case 0
  then show ?case by simp
next
  case (Suc n)
  let ?h = "(unblockedHit ^^ n) g"
  from Suc have ih: "lives ?h = lives g - int n" "\<not> win ?h" "\<not> over ?h"
    by simp_all
  from Suc.prems ih have "decr (lives ?h) = lives ?h - 1"
    unfolding decr_def by (intro wrap64_id) (simp add: int64_def)
  with ih have "lives (unblockedHit ?h) = lives ?h - 1 \<and> \<not> win (unblockedHit ?h) \<and>
     (over (unblockedHit ?h) \<longleftrightarrow> lives ?h - 1 < 0)"
    by (intro unblockedHit_step)
  with ih Suc.prems show ?case
    by auto
qed

lemma unblockedHits_lost:
  assumes "0 \<le> lives g" "lives g < 2 ^ 63" "\<not> win g" "\<not> over g"
  shows "over ((unblockedHit ^^ n) g) \<longleftrightarrow> nat (lives g) + 1 \<le> n"
proof (cases "int n \<le> lives g + 1")
  case True
  with assms unblockedHits_count [of g n] show ?thesis by auto
next
  case False
  define m where "m = nat (lives g) + 1"
  from False assms have "m \<le> n" by (simp add: m_def)
  then obtain k where k: "n = k + m" by (metis le_add_diff_inverse2)
  from assms have "over ((unblockedHit ^^ m) g)"
    using unblockedHits_count [of g m] by (simp add: m_def)
  then have "over ((unblockedHit ^^ k) ((unblockedHit ^^ m) g))"
    by (rule unblockedHits_over)
  then have "over ((unblockedHit ^^ n) g)"
    by (simp add: k funpow_add)
  with \<open>m \<le> n\<close> show ?thesis by (simp add: m_def)
qed

lemma loseLife_blocked: "inv_t g > 0 \<or> win g \<or> over g \<Longrightarrow> loseLife g = g"
  by (simp add: loseLife_def)

lemma loseLife_hit:
  "\<not> (inv_t g > 0 \<or> win g \<or> over g) \<Longrightarrow>
     loseLife g = g\<lparr>lives := decr (lives g), inv_t := iframeTicks, over := decr (lives g) < 0,
                      played := played g @ [SHit]\<rparr>"
  by (simp add: loseLife_def Let_def play_def)

text \<open>
  Claim C2. \<^verbatim>\<open>loseLife\<close> leaves the state as it is when the invulnerability window is
  open or the game is won or over. Otherwise it decrements \<open>lives\<close> (by exactly one
  unless \<open>lives\<close> is the least 64-bit integer), sets the window to \<open>iframeTicks = 60\<close> and
  sets \<open>over\<close> exactly when \<open>lives\<close> is now negative, which from a non-negative value
  means \<open>- 1\<close>. From the start value of \<open>lives\<close> the game is over after \<open>n\<close> unblocked
  hits exactly when \<open>n\<close> is at least \<open>startLives + 1\<close>.
\<close>

theorem C2_loseLife:
  "(inv_t g > 0 \<or> win g \<or> over g \<longrightarrow> loseLife g = g) \<and>
   (\<not> (inv_t g > 0 \<or> win g \<or> over g) \<longrightarrow>
      lives (loseLife g) = decr (lives g) \<and>
      (- (2 ^ 63) < lives g \<and> lives g < 2 ^ 63 \<longrightarrow> lives (loseLife g) = lives g - 1) \<and>
      inv_t (loseLife g) = iframeTicks \<and> iframeTicks = 60 \<and>
      (over (loseLife g) \<longleftrightarrow> lives (loseLife g) < 0) \<and>
      (0 \<le> lives g \<and> lives g < 2 ^ 63 \<longrightarrow> (over (loseLife g) \<longleftrightarrow> lives (loseLife g) = - 1))) \<and>
   (lives g = startLives \<and> \<not> win g \<and> \<not> over g \<longrightarrow>
      (over ((unblockedHit ^^ n) g) \<longleftrightarrow> nat startLives + 1 \<le> n))"
proof (intro conjI impI)
  assume "inv_t g > 0 \<or> win g \<or> over g"
  then show "loseLife g = g" by (rule loseLife_blocked)
next
  assume a: "\<not> (inv_t g > 0 \<or> win g \<or> over g)"
  note h = loseLife_hit [OF a]
  show "lives (loseLife g) = decr (lives g)" by (simp add: h)
  show "inv_t (loseLife g) = iframeTicks" by (simp add: h)
  show "over (loseLife g) \<longleftrightarrow> lives (loseLife g) < 0" by (simp add: h)
  { assume b: "- (2 ^ 63) < lives g \<and> lives g < 2 ^ 63"
    then have "decr (lives g) = lives g - 1"
      unfolding decr_def by (intro wrap64_id) (simp add: int64_def)
    then show "lives (loseLife g) = lives g - 1" by (simp add: h) }
  { assume b: "0 \<le> lives g \<and> lives g < 2 ^ 63"
    then have "decr (lives g) = lives g - 1"
      unfolding decr_def by (intro wrap64_id) (simp add: int64_def)
    with b show "over (loseLife g) \<longleftrightarrow> lives (loseLife g) = - 1" by (auto simp: h) }
next
  show "iframeTicks = 60" by (simp add: iframeTicks_def)
next
  assume "lives g = startLives \<and> \<not> win g \<and> \<not> over g"
  then show "over ((unblockedHit ^^ n) g) \<longleftrightarrow> nat startLives + 1 \<le> n"
    using unblockedHits_lost [of g n] by (simp add: startLives_def)
qed

theorem C2_loseLife_witness:
  "\<not> (inv_t (newGame (\<lambda>_. 0) None) > 0 \<or> win (newGame (\<lambda>_. 0) None) \<or> over (newGame (\<lambda>_. 0) None)) \<and>
   - (2 ^ 63) < lives (newGame (\<lambda>_. 0) None) \<and> lives (newGame (\<lambda>_. 0) None) < 2 ^ 63 \<and>
   0 \<le> lives (newGame (\<lambda>_. 0) None) \<and>
   lives (newGame (\<lambda>_. 0) None) = startLives \<and>
   lives (loseLife (newGame (\<lambda>_. 0) None)) = 1 \<and>
   inv_t (loseLife (newGame (\<lambda>_. 0) None)) = 60 \<and>
   \<not> over (loseLife (newGame (\<lambda>_. 0) None)) \<and>
   loseLife (loseLife (newGame (\<lambda>_. 0) None)) = loseLife (newGame (\<lambda>_. 0) None) \<and>
   \<not> over ((unblockedHit ^^ 2) (newGame (\<lambda>_. 0) None)) \<and>
   over ((unblockedHit ^^ 3) (newGame (\<lambda>_. 0) None))"
  using C2_loseLife [of "newGame (\<lambda>_. 0) None" 2] C2_loseLife [of "newGame (\<lambda>_. 0) None" 3]
    C2_loseLife [of "loseLife (newGame (\<lambda>_. 0) None)" 0]
  by (simp add: newGame_flags startLives_def)

subsection \<open>One tick\<close>

lemma core_fields:
  "core g' = core g \<Longrightarrow>
     roundIdx g' = roundIdx g \<and> roundSpawned g' = roundSpawned g \<and> lives g' = lives g \<and>
     inv_t g' = inv_t g \<and> win g' = win g \<and> over g' = over g"
  by (simp add: core_def)

lemma roundComplete_vitals:
  "roundComplete g = Inr g' \<Longrightarrow>
     lives g' = lives g \<and> inv_t g' = inv_t g \<and> over g' = over g \<and> (win g \<longrightarrow> win g')"
  by (auto simp: roundComplete_def Let_def split: if_splits sum.splits)

lemma incr_small: "0 \<le> n \<Longrightarrow> n < 2 ^ 62 \<Longrightarrow> incr n = n + 1"
  unfolding incr_def by (intro wrap64_id) (simp add: int64_def)

lemma decr_small: "- (2 ^ 63) < n \<Longrightarrow> n < 2 ^ 63 \<Longrightarrow> decr n = n - 1"
  unfolding decr_def by (intro wrap64_id) (simp add: int64_def)

lemma roundsAt_Inr: "roundsAt i = Inr q \<longleftrightarrow> 0 \<le> i \<and> i < 6 \<and> q = rounds ! nat i"
  by (auto simp: roundsAt_def rounds_def)

lemma roundComplete_idx:
  "roundComplete g = Inr g' \<Longrightarrow> roundIdx g \<le> roundIdx g'"
  by (auto simp: roundComplete_def Let_def roundsAt_def rounds_def incr_small
      split: if_splits sum.splits)

lemma roundComplete_advance:
  assumes "0 \<le> roundIdx g" "roundIdx g < int (length rounds)"
    "rounds ! nat (roundIdx g) \<le> roundKills g"
  shows "\<exists>g'. roundComplete g = Inr g' \<and> roundIdx g' = roundIdx g + 1 \<and>
     roundKills g' = 0 \<and> roundSpawned g' = 0 \<and> spawnTimer g' = spawnInterval (roundIdx g') \<and>
     (win g' \<longleftrightarrow> win g \<or> int (length rounds) \<le> roundIdx g')"
  using assms
  by (simp add: roundComplete_def Let_def roundsAt_def incr_small rounds_def)

lemma roundComplete_stay:
  assumes "0 \<le> roundIdx g" "roundIdx g < int (length rounds)"
    "roundKills g < rounds ! nat (roundIdx g)"
  shows "roundComplete g = Inr g"
  using assms by (simp add: roundComplete_def Let_def roundsAt_def)

text \<open>The decomposition of a tick of a game that is being played.\<close>

lemma Update_playing:
  assumes "Update lib inp g = Inr g'" "\<not> win g" "\<not> over g"
  shows "\<exists>g5 g6 dead g7.
     spawnEnemies (shoot inp (tickInv (movePlayer inp (scrollBackground g)))) = Inr g5 \<and>
     moveBullets lib g5 = (g6, dead) \<and> g7 = moveEnemies lib (g6, dead) \<and>
     beforeRoundCheck lib inp (scrollBackground g) = Inr g7 \<and>
     roundComplete g7 = Inr g'"
proof -
  define g4 where "g4 = shoot inp (tickInv (movePlayer inp (scrollBackground g)))"
  from assms have gp: "gameplay lib inp (scrollBackground g) = Inr g'"
    by (simp add: Update_def)
  then obtain g5 where s: "spawnEnemies g4 = Inr g5"
    by (cases "spawnEnemies g4") (simp_all add: gameplay_def beforeRoundCheck_def g4_def)
  obtain g6 dead where b: "moveBullets lib g5 = (g6, dead)"
    by (cases "moveBullets lib g5")
  from s b have bf: "beforeRoundCheck lib inp (scrollBackground g) = Inr (moveEnemies lib (g6, dead))"
    by (simp add: beforeRoundCheck_def g4_def)
  with gp have "roundComplete (moveEnemies lib (g6, dead)) = Inr g'"
    by (simp add: gameplay_def)
  with s b bf show ?thesis by (simp add: g4_def)
qed

lemma before_spawn_core:
  "core (shoot inp (tickInv (movePlayer inp (scrollBackground g)))) =
     (roundIdx g, roundSpawned g, lives g,
      (if inv_t g > 0 then decr (inv_t g) else inv_t g), win g, over g)"
proof -
  have a: "core (movePlayer inp (scrollBackground g)) = core g"
    by (simp add: movePlayer_core scrollBackground_core)
  show ?thesis
    using core_fields [OF a]
    by (simp add: shoot_core tickInv_core)
qed

lemma tick_vitals:
  assumes "Update lib inp g = Inr g'" "\<not> win g" "\<not> over g"
  shows "\<exists>g6 g7. roundIdx g6 = roundIdx g \<and> lives g6 = lives g \<and>
     inv_t g6 = (if inv_t g > 0 then decr (inv_t g) else inv_t g) \<and> \<not> win g6 \<and> \<not> over g6 \<and>
     (core g7 = core g6 \<or> hurt g6 g7) \<and>
     beforeRoundCheck lib inp (scrollBackground g) = Inr g7 \<and> roundComplete g7 = Inr g'"
proof -
  from Update_playing [OF assms] obtain g5 g6 dead g7 where
    s: "spawnEnemies (shoot inp (tickInv (movePlayer inp (scrollBackground g)))) = Inr g5"
    and b: "moveBullets lib g5 = (g6, dead)" and e: "g7 = moveEnemies lib (g6, dead)"
    and bf: "beforeRoundCheck lib inp (scrollBackground g) = Inr g7"
    and r: "roundComplete g7 = Inr g'" by blast
  define g4 where "g4 = shoot inp (tickInv (movePlayer inp (scrollBackground g)))"
  have c4: "core g4 = (roundIdx g, roundSpawned g, lives g,
      (if inv_t g > 0 then decr (inv_t g) else inv_t g), win g, over g)"
    unfolding g4_def by (rule before_spawn_core)
  from s have "spawnEnemies g4 = Inr g5" by (simp add: g4_def)
  note f5 = spawnEnemies_core [OF this]
  from b moveBullets_core [of lib g5] have "core g6 = core g5" by simp
  note f6 = core_fields [OF this]
  have "core g7 = core g6 \<or> hurt g6 g7" unfolding e by (rule moveEnemies_cases)
  with f5 f6 c4 assms bf r show ?thesis
    by (intro exI [of _ g6] exI [of _ g7]) (simp add: core_def)
qed

lemma Update_lives:
  assumes "Update lib inp g = Inr g'"
  shows "lives g' = lives g \<or> (lives g' = decr (lives g) \<and> inv_t g' = iframeTicks)"
proof (cases "win g \<or> over g")
  case True
  with assms show ?thesis by (simp add: Update_def)
next
  case False
  then have "\<not> win g" "\<not> over g" by simp_all
  from tick_vitals [OF assms this] obtain g6 g7 where
    f: "lives g6 = lives g" and c: "core g7 = core g6 \<or> hurt g6 g7"
    and r: "roundComplete g7 = Inr g'" by blast
  note v = roundComplete_vitals [OF r]
  from c show ?thesis
  proof
    assume "core g7 = core g6"
    from core_fields [OF this] f v show ?thesis by simp
  next
    assume "hurt g6 g7"
    with f v show ?thesis by (simp add: hurt_def)
  qed
qed

lemma Update_invulnerable:
  assumes "Update lib inp g = Inr g'" "1 < inv_t g" "inv_t g < 2 ^ 63"
  shows "lives g' = lives g"
proof (cases "win g \<or> over g")
  case True
  with assms show ?thesis by (simp add: Update_def)
next
  case False
  then have "\<not> win g" "\<not> over g" by simp_all
  from tick_vitals [OF assms(1) this] obtain g6 g7 where
    f: "lives g6 = lives g" "inv_t g6 = (if inv_t g > 0 then decr (inv_t g) else inv_t g)"
    and c: "core g7 = core g6 \<or> hurt g6 g7"
    and r: "roundComplete g7 = Inr g'" by blast
  from assms have "decr (inv_t g) = inv_t g - 1" by (intro decr_small) simp_all
  with f assms have "0 < inv_t g6" by simp
  then have "\<not> hurt g6 g7" by (simp add: hurt_def)
  with c have "core g7 = core g6" by simp
  from core_fields [OF this] f roundComplete_vitals [OF r] show ?thesis by simp
qed

subsection \<open>Concrete ticks\<close>

text \<open>The definitions a concrete tick is evaluated with.\<close>

lemmas tick_defs = Update_def gameplay_def beforeRoundCheck_def scrollBackground_def
  movePlayer_def tickInv_def shoot_def spawnEnemies_def moveBullets_def bulletStep_def
  moveEnemies_def enemyStep_def enemyTouch_def removeDeadOrEscaped_def roundComplete_def
  roundsAt_def rounds_def loseLife_def play_def spaceAdd_def spaceRemove_def newShape_def
  setPosition_def newRectangleFromTopLeft_def aabb_def overlaps_def boxLeft_def boxTop_def
  rngFloat64_def
  incr_def decr_def wrap64_def spawnInterval_def fireDelay_def quot_def enemySpeed_def
  screenW_def screenH_def playerSize_def playerSpeed_def bulletSize_def bulletSpeed_def
  enemySize_def baseEnemySpeed_def baseSpawnInterval_def minSpawnInterval_def iframeTicks_def
  bgScrollSpeed_def Let_def

lemmas scene_defs = stage_def playerAt_def withBullet_def withEnemy_def noKeys_def

lemma after_Inr: "after (Inr g) f = Some (f g)"
  by (simp add: after_def)

lemma crowded_ticks:
  "\<exists>g' g''. Update aabb noKeys crowded = Inr g' \<and> Update aabb noKeys g' = Inr g'' \<and>
     lives crowded = 2 \<and> inv_t crowded = 0 \<and> length (enemies crowded) = 2 \<and>
     lives g' = 1 \<and> inv_t g' = 60 \<and> length (enemies g') = 1 \<and> lives g'' = 1 \<and> inv_t g'' = 59"
  by (simp add: crowded_def scene_defs tick_defs)

subsection \<open>Rounds\<close>

lemma rounds_cases:
  "0 \<le> i \<Longrightarrow> i < 6 \<Longrightarrow> i = 0 \<or> i = 1 \<or> i = 2 \<or> i = 3 \<or> i = 4 \<or> i = (5::int)"
  by arith

lemma rounds_bounds: "0 \<le> i \<Longrightarrow> i < 6 \<Longrightarrow> 6 \<le> rounds ! nat i \<and> rounds ! nat i \<le> 42"
  using rounds_cases [of i] by (auto simp: rounds_def)

lemma roundsOk_newGame: "roundsOk (newGame seed img)"
  by (simp add: roundsOk_def newGame_flags rounds_def)

lemma spawnEnemies_total:
  "0 \<le> roundIdx g \<Longrightarrow> \<exists>g'. spawnEnemies g = Inr g'"
  by (simp add: spawnEnemies_def Let_def roundsAt_def split: prod.splits)

lemma spawnEnemies_spawned:
  assumes "spawnEnemies g = Inr g'" "0 \<le> roundIdx g" "roundIdx g < 6"
    "0 \<le> roundSpawned g" "roundSpawned g \<le> rounds ! nat (roundIdx g)"
  shows "0 \<le> roundSpawned g' \<and> roundSpawned g' \<le> rounds ! nat (roundIdx g)"
proof -
  from rounds_bounds [OF assms(2,3)] assms(4,5) have "roundSpawned g < 2 ^ 62" by simp
  with assms(4) have i: "incr (roundSpawned g) = roundSpawned g + 1" by (rule incr_small)
  from assms i show ?thesis
    by (auto simp: spawnEnemies_def Let_def roundsAt_def newShape_def spaceAdd_def
        split: if_splits prod.splits)
qed

lemma spawnEnemies_suppressed:
  assumes "decr (spawnTimer g) \<le> 0" "0 \<le> roundIdx g" "roundIdx g < int (length rounds)"
    "rounds ! nat (roundIdx g) \<le> roundSpawned g"
  shows "spawnEnemies g = Inr (g\<lparr>spawnTimer := spawnInterval (roundIdx g)\<rparr>)"
  using assms by (simp add: spawnEnemies_def Let_def roundsAt_def)

lemma roundComplete_total: "0 \<le> roundIdx g \<Longrightarrow> \<exists>g'. roundComplete g = Inr g'"
  by (simp add: roundComplete_def Let_def roundsAt_def)

lemma roundComplete_roundsOk:
  assumes "roundComplete g = Inr g'" "roundsOk g"
  shows "roundsOk g'"
proof (cases "roundIdx g < 6 \<and> rounds ! nat (roundIdx g) \<le> roundKills g")
  case True
  with assms(2) have b: "0 \<le> roundIdx g" "roundIdx g < int (length rounds)"
    "rounds ! nat (roundIdx g) \<le> roundKills g"
    by (simp_all add: roundsOk_def rounds_def)
  from roundComplete_advance [OF b] assms(1)
  have f: "roundIdx g' = roundIdx g + 1" "roundSpawned g' = 0"
    "win g' \<longleftrightarrow> win g \<or> int (length rounds) \<le> roundIdx g'" by auto
  have "roundIdx g' < 6 \<longrightarrow> 0 \<le> rounds ! nat (roundIdx g')"
    using rounds_bounds [of "roundIdx g'"] f b by auto
  with f b show ?thesis by (simp add: roundsOk_def rounds_def)
next
  case False
  with assms have "g' = g"
    by (auto simp: roundComplete_def roundsOk_def Let_def roundsAt_def rounds_def
        split: if_splits sum.splits)
  with assms show ?thesis by simp
qed

lemma roundsOk_fields:
  "roundsOk g \<Longrightarrow> roundIdx g' = roundIdx g \<Longrightarrow> roundSpawned g' = roundSpawned g \<Longrightarrow>
     win g' = win g \<Longrightarrow> roundsOk g'"
  by (simp add: roundsOk_def)

lemma Update_roundsOk:
  assumes "Update lib inp g = Inr g'" "roundsOk g"
  shows "roundsOk g'"
proof (cases "win g \<or> over g")
  case True
  with assms show ?thesis by (simp add: Update_def)
next
  case False
  then have nw: "\<not> win g" "\<not> over g" by simp_all
  from Update_playing [OF assms(1) nw] obtain g5 g6 dead g7 where
    s: "spawnEnemies (shoot inp (tickInv (movePlayer inp (scrollBackground g)))) = Inr g5"
    and b: "moveBullets lib g5 = (g6, dead)" and e: "g7 = moveEnemies lib (g6, dead)"
    and r: "roundComplete g7 = Inr g'" by blast
  define g4 where "g4 = shoot inp (tickInv (movePlayer inp (scrollBackground g)))"
  have c4: "core g4 = (roundIdx g, roundSpawned g, lives g,
      (if inv_t g > 0 then decr (inv_t g) else inv_t g), win g, over g)"
    unfolding g4_def by (rule before_spawn_core)
  then have f4: "roundIdx g4 = roundIdx g" "roundSpawned g4 = roundSpawned g" "win g4 = win g"
    by (simp_all add: core_def)
  from assms(2) nw have idx: "0 \<le> roundIdx g" "roundIdx g < 6"
    by (auto simp: roundsOk_def rounds_def)
  with assms(2) have sp: "0 \<le> roundSpawned g" "roundSpawned g \<le> rounds ! nat (roundIdx g)"
    by (simp_all add: roundsOk_def rounds_def)
  from s have s4: "spawnEnemies g4 = Inr g5" by (simp add: g4_def)
  note f5 = spawnEnemies_core [OF s4]
  from spawnEnemies_spawned [OF s4] idx sp f4
  have sp5: "0 \<le> roundSpawned g5 \<and> roundSpawned g5 \<le> rounds ! nat (roundIdx g)" by simp
  from b moveBullets_core [of lib g5] have "core g6 = core g5" by simp
  note f6 = core_fields [OF this]
  have "core g7 = core g6 \<or> hurt g6 g7" unfolding e by (rule moveEnemies_cases)
  then have f7: "roundIdx g7 = roundIdx g6 \<and> roundSpawned g7 = roundSpawned g6 \<and> win g7 = win g6"
    by (auto simp: core_def hurt_def)
  from f4 f5 f6 f7 sp5 idx nw have "roundsOk g7"
    by (simp add: roundsOk_def rounds_def)
  with r show ?thesis by (rule roundComplete_roundsOk)
qed

lemma reachable_roundsOk: "reachable lib g \<Longrightarrow> roundsOk g"
  by (induction rule: reachable.induct) (auto intro: roundsOk_newGame Update_roundsOk)

lemma Update_total:
  assumes "0 \<le> roundIdx g"
  shows "\<exists>g'. Update lib inp g = Inr g'"
proof (cases "win g \<or> over g")
  case True
  then show ?thesis by (simp add: Update_def)
next
  case False
  define g4 where "g4 = shoot inp (tickInv (movePlayer inp (scrollBackground g)))"
  have c4: "core g4 = (roundIdx g, roundSpawned g, lives g,
      (if inv_t g > 0 then decr (inv_t g) else inv_t g), win g, over g)"
    unfolding g4_def by (rule before_spawn_core)
  then have f4: "roundIdx g4 = roundIdx g" by (simp add: core_def)
  with assms spawnEnemies_total [of g4] obtain g5 where s4: "spawnEnemies g4 = Inr g5" by auto
  note f5 = spawnEnemies_core [OF s4]
  obtain g6 dead where b: "moveBullets lib g5 = (g6, dead)" by (cases "moveBullets lib g5")
  from b moveBullets_core [of lib g5] have "core g6 = core g5" by simp
  note f6 = core_fields [OF this]
  define g7 where "g7 = moveEnemies lib (g6, dead)"
  have "core g7 = core g6 \<or> hurt g6 g7" unfolding g7_def by (rule moveEnemies_cases)
  then have "roundIdx g7 = roundIdx g6" by (auto simp: core_def hurt_def)
  with f4 f5 f6 assms have "0 \<le> roundIdx g7" by simp
  from roundComplete_total [OF this] obtain g' where "roundComplete g7 = Inr g'" ..
  with s4 b False show ?thesis
    by (simp add: Update_def gameplay_def beforeRoundCheck_def g4_def g7_def)
qed

lemma Update_idx:
  assumes "Update lib inp g = Inr g'"
  shows "roundIdx g \<le> roundIdx g'"
proof (cases "win g \<or> over g")
  case True
  with assms show ?thesis by (simp add: Update_def)
next
  case False
  then have "\<not> win g" "\<not> over g" by simp_all
  from tick_vitals [OF assms this] obtain g6 g7 where
    f: "roundIdx g6 = roundIdx g" and c: "core g7 = core g6 \<or> hurt g6 g7"
    and r: "roundComplete g7 = Inr g'" by blast
  from c have "roundIdx g7 = roundIdx g6" by (auto simp: core_def hurt_def)
  with f roundComplete_idx [OF r] show ?thesis by simp
qed

lemma run_idx: "run lib inps g = Inr g' \<Longrightarrow> roundIdx g \<le> roundIdx g'"
proof (induction inps arbitrary: g)
  case Nil
  then show ?case by simp
next
  case (Cons i inps)
  then obtain g1 where u: "Update lib i g = Inr g1" and r: "run lib inps g1 = Inr g'"
    by (auto split: sum.splits)
  from Update_idx [OF u] Cons.IH [OF r] show ?case by simp
qed

lemma before_idx:
  assumes "beforeRoundCheck lib inp (scrollBackground g) = Inr g1"
  shows "roundIdx g1 = roundIdx g \<and> win g1 = win g"
proof -
  define g4 where "g4 = shoot inp (tickInv (movePlayer inp (scrollBackground g)))"
  have "core g4 = (roundIdx g, roundSpawned g, lives g,
      (if inv_t g > 0 then decr (inv_t g) else inv_t g), win g, over g)"
    unfolding g4_def by (rule before_spawn_core)
  then have f4: "roundIdx g4 = roundIdx g" "win g4 = win g" by (simp_all add: core_def)
  from assms obtain g5 where s4: "spawnEnemies g4 = Inr g5"
    and g1: "g1 = moveEnemies lib (moveBullets lib g5)"
    by (auto simp: beforeRoundCheck_def g4_def split: sum.splits)
  note f5 = spawnEnemies_core [OF s4]
  obtain g6 dead where b: "moveBullets lib g5 = (g6, dead)" by (cases "moveBullets lib g5")
  from b moveBullets_core [of lib g5] have "core g6 = core g5" by simp
  note f6 = core_fields [OF this]
  have "core (moveEnemies lib (g6, dead)) = core g6 \<or> hurt g6 (moveEnemies lib (g6, dead))"
    by (rule moveEnemies_cases)
  then have "roundIdx (moveEnemies lib (g6, dead)) = roundIdx g6 \<and>
      win (moveEnemies lib (g6, dead)) = win g6"
    by (auto simp: core_def hurt_def)
  with f4 f5 f6 g1 b show ?thesis by simp
qed

text \<open>
  Claim C3. \<open>rounds\<close> has 6 entries. In a tick of a game that is being played, let \<open>g1\<close>
  be the state at the end of the enemy loop, with its round index in bounds. If the
  kills of the round have reached the quota, the tick ends with the round index one
  higher, both counters of the round at 0, the spawn timer at the interval of the new
  round, and \<open>win\<close> set exactly when the new index is at least 6. If they have not, the
  tick ends in \<open>g1\<close>. Over a whole run the round index never goes down.
\<close>

theorem C3_round_advance:
  "length rounds = 6 \<and>
   (\<not> win g \<and> \<not> over g \<and> beforeRoundCheck lib inp (scrollBackground g) = Inr g1 \<and>
    0 \<le> roundIdx g1 \<and> roundIdx g1 < int (length rounds) \<and>
    rounds ! nat (roundIdx g1) \<le> roundKills g1 \<longrightarrow>
      (\<exists>g'. Update lib inp g = Inr g' \<and> roundIdx g' = roundIdx g + 1 \<and>
         roundKills g' = 0 \<and> roundSpawned g' = 0 \<and>
         spawnTimer g' = spawnInterval (roundIdx g') \<and>
         (win g' \<longleftrightarrow> int (length rounds) \<le> roundIdx g'))) \<and>
   (\<not> win g \<and> \<not> over g \<and> beforeRoundCheck lib inp (scrollBackground g) = Inr g1 \<and>
    0 \<le> roundIdx g1 \<and> roundIdx g1 < int (length rounds) \<and>
    roundKills g1 < rounds ! nat (roundIdx g1) \<longrightarrow> Update lib inp g = Inr g1) \<and>
   (run lib inps g = Inr g2 \<longrightarrow> roundIdx g \<le> roundIdx g2)"
proof (intro conjI impI)
  show "length rounds = 6" by (simp add: rounds_def)
next
  assume a: "\<not> win g \<and> \<not> over g \<and> beforeRoundCheck lib inp (scrollBackground g) = Inr g1 \<and>
    0 \<le> roundIdx g1 \<and> roundIdx g1 < int (length rounds) \<and>
    rounds ! nat (roundIdx g1) \<le> roundKills g1"
  then have b: "beforeRoundCheck lib inp (scrollBackground g) = Inr g1" by simp
  from a have "0 \<le> roundIdx g1" "roundIdx g1 < int (length rounds)"
    "rounds ! nat (roundIdx g1) \<le> roundKills g1" by simp_all
  from roundComplete_advance [OF this] obtain g' where
    "roundComplete g1 = Inr g'" "roundIdx g' = roundIdx g1 + 1"
     "roundKills g' = 0" "roundSpawned g' = 0" "spawnTimer g' = spawnInterval (roundIdx g')"
     "win g' \<longleftrightarrow> win g1 \<or> int (length rounds) \<le> roundIdx g'" by blast
  with a before_idx [OF b]
  show "\<exists>g'. Update lib inp g = Inr g' \<and> roundIdx g' = roundIdx g + 1 \<and>
         roundKills g' = 0 \<and> roundSpawned g' = 0 \<and>
         spawnTimer g' = spawnInterval (roundIdx g') \<and>
         (win g' \<longleftrightarrow> int (length rounds) \<le> roundIdx g')"
    by (intro exI [of _ g']) (simp add: Update_def gameplay_def)
next
  assume a: "\<not> win g \<and> \<not> over g \<and> beforeRoundCheck lib inp (scrollBackground g) = Inr g1 \<and>
    0 \<le> roundIdx g1 \<and> roundIdx g1 < int (length rounds) \<and>
    roundKills g1 < rounds ! nat (roundIdx g1)"
  then have "roundComplete g1 = Inr g1" by (intro roundComplete_stay) simp_all
  with a show "Update lib inp g = Inr g1" by (simp add: Update_def gameplay_def)
next
  assume "run lib inps g = Inr g2"
  then show "roundIdx g \<le> roundIdx g2" by (rule run_idx)
qed

lemma roundEnd_tick:
  "\<exists>g1. beforeRoundCheck aabb noKeys (scrollBackground roundEnd) = Inr g1 \<and>
     roundIdx g1 = 0 \<and> roundKills g1 = 6 \<and> \<not> win roundEnd \<and> \<not> over roundEnd \<and>
     roundIdx roundEnd = 0 \<and> roundKills roundEnd = 5"
  by (simp add: roundEnd_def scene_defs tick_defs)

lemma stage_tick:
  "\<exists>g1. beforeRoundCheck aabb noKeys (scrollBackground (stage 0)) = Inr g1 \<and>
     roundIdx g1 = 0 \<and> roundKills g1 = 0 \<and> spawnTimer g1 = 31 \<and>
     \<not> win (stage 0) \<and> \<not> over (stage 0)"
  by (simp add: scene_defs tick_defs)

theorem C3_round_advance_witness:
  "roundIdx roundEnd = 0 \<and> roundKills roundEnd = 5 \<and> \<not> win roundEnd \<and> \<not> over roundEnd \<and>
   after (beforeRoundCheck aabb noKeys (scrollBackground roundEnd)) roundKills = Some 6 \<and>
   rounds ! 0 = 6 \<and>
   after (Update aabb noKeys roundEnd) roundIdx = Some 1 \<and>
   after (Update aabb noKeys roundEnd) roundKills = Some 0 \<and>
   after (Update aabb noKeys roundEnd) roundSpawned = Some 0 \<and>
   after (Update aabb noKeys roundEnd) spawnTimer = Some 30 \<and>
   after (Update aabb noKeys roundEnd) win = Some False \<and>
   after (Update aabb noKeys (stage 0)) roundIdx = Some 0 \<and>
   after (Update aabb noKeys (stage 0)) spawnTimer = Some 31"
proof -
  from roundEnd_tick obtain g1 where
    b: "beforeRoundCheck aabb noKeys (scrollBackground roundEnd) = Inr g1"
    and f: "roundIdx g1 = 0" "roundKills g1 = 6" "\<not> win roundEnd" "\<not> over roundEnd"
      "roundIdx roundEnd = 0" "roundKills roundEnd = 5" by blast
  from stage_tick obtain h1 where
    c: "beforeRoundCheck aabb noKeys (scrollBackground (stage 0)) = Inr h1"
    and k: "roundIdx h1 = 0" "roundKills h1 = 0" "spawnTimer h1 = 31"
      "\<not> win (stage 0)" "\<not> over (stage 0)" by blast
  from C3_round_advance [of roundEnd aabb noKeys g1 "[]" roundEnd] b f
  obtain g' where "Update aabb noKeys roundEnd = Inr g'" "roundIdx g' = 1" "roundKills g' = 0"
    "roundSpawned g' = 0" "spawnTimer g' = spawnInterval 1" "\<not> win g'"
    by (auto simp: rounds_def)
  moreover from C3_round_advance [of "stage 0" aabb noKeys h1 "[]" "stage 0"] c k
  have "Update aabb noKeys (stage 0) = Inr h1" by (simp add: rounds_def)
  moreover have "spawnInterval 1 = 30"
    by (simp add: spawnInterval_def wrap64_def baseSpawnInterval_def minSpawnInterval_def)
  ultimately show ?thesis using b f k by (simp add: after_Inr rounds_def)
qed

text \<open>
  Claim C10. In every reachable state of a game that is being played the round index is
  in bounds and \<open>roundSpawned\<close> is at most the quota of the round, and \<^verbatim>\<open>Update\<close>
  returns without a panic. When the spawn timer runs out with the quota already met,
  the spawn phase only resets the timer: no enemy, no shape, no error.
\<close>

theorem C10_spawn_quota:
  "(reachable lib g \<longrightarrow>
      (\<not> win g \<and> \<not> over g \<longrightarrow>
         0 \<le> roundIdx g \<and> roundIdx g < int (length rounds) \<and>
         roundSpawned g \<le> rounds ! nat (roundIdx g)) \<and>
      (\<exists>g'. Update lib inp g = Inr g')) \<and>
   (decr (spawnTimer h) \<le> 0 \<and> 0 \<le> roundIdx h \<and> roundIdx h < int (length rounds) \<and>
    rounds ! nat (roundIdx h) \<le> roundSpawned h \<longrightarrow>
      spawnEnemies h = Inr (h\<lparr>spawnTimer := spawnInterval (roundIdx h)\<rparr>))"
proof (intro conjI impI)
  assume r: "reachable lib g"
  then have ok: "roundsOk g" by (rule reachable_roundsOk)
  then show "\<exists>g'. Update lib inp g = Inr g'"
    by (intro Update_total) (simp add: roundsOk_def)
  assume "\<not> win g \<and> \<not> over g"
  with ok show "0 \<le> roundIdx g" "roundIdx g < int (length rounds)"
    "roundSpawned g \<le> rounds ! nat (roundIdx g)"
    by (auto simp: roundsOk_def)
next
  assume "decr (spawnTimer h) \<le> 0 \<and> 0 \<le> roundIdx h \<and> roundIdx h < int (length rounds) \<and>
    rounds ! nat (roundIdx h) \<le> roundSpawned h"
  then show "spawnEnemies h = Inr (h\<lparr>spawnTimer := spawnInterval (roundIdx h)\<rparr>)"
    by (intro spawnEnemies_suppressed) simp_all
qed

theorem C10_spawn_quota_witness:
  "reachable aabb (newGame (\<lambda>_. 0) None) \<and>
   \<not> win (newGame (\<lambda>_. 0) None) \<and> \<not> over (newGame (\<lambda>_. 0) None) \<and>
   roundIdx (newGame (\<lambda>_. 0) None) = 0 \<and>
   roundSpawned (newGame (\<lambda>_. 0) None) \<le> rounds ! nat (roundIdx (newGame (\<lambda>_. 0) None)) \<and>
   decr (spawnTimer quotaMet) \<le> 0 \<and> roundIdx quotaMet = 0 \<and> roundSpawned quotaMet = 6 \<and>
   rounds ! nat (roundIdx quotaMet) = 6 \<and>
   spawnEnemies quotaMet = Inr (quotaMet\<lparr>spawnTimer := 32\<rparr>) \<and>
   after (spawnEnemies quotaMet) enemies = Some [] \<and>
   after (spawnEnemies quotaMet) space = Some [0]"
proof -
  have r: "reachable aabb (newGame (\<lambda>_. 0) None)" by (rule reachable.start)
  have q: "decr (spawnTimer quotaMet) \<le> 0" "roundIdx quotaMet = 0" "roundSpawned quotaMet = 6"
    "enemies quotaMet = []" "space quotaMet = [0]"
    by (simp_all add: quotaMet_def stage_def decr_def wrap64_def)
  have s: "spawnInterval 0 = 32"
    by (simp add: spawnInterval_def wrap64_def baseSpawnInterval_def minSpawnInterval_def)
  from C10_spawn_quota [of aabb "newGame (\<lambda>_. 0) None" noKeys quotaMet] r q s
  show ?thesis
    by (simp add: newGame_flags rounds_def after_Inr)
qed

subsection \<open>Lives\<close>

lemma livesOk_newGame: "livesOk (newGame seed img)"
  by (simp add: livesOk_def newGame_flags startLives_def)

lemma Update_livesOk:
  assumes "Update lib inp g = Inr g'" "livesOk g"
  shows "livesOk g'"
proof (cases "win g \<or> over g")
  case True
  with assms show ?thesis by (simp add: Update_def)
next
  case False
  then have nw: "\<not> win g" "\<not> over g" by simp_all
  from tick_vitals [OF assms(1) nw] obtain g6 g7 where
    f: "lives g6 = lives g" "\<not> over g6" and c: "core g7 = core g6 \<or> hurt g6 g7"
    and r: "roundComplete g7 = Inr g'" by blast
  note v = roundComplete_vitals [OF r]
  from assms(2) nw have l: "0 \<le> lives g" "lives g \<le> startLives" by (auto simp: livesOk_def)
  then have d: "decr (lives g) = lives g - 1"
    by (intro decr_small) (simp_all add: startLives_def)
  from c show ?thesis
  proof
    assume "core g7 = core g6"
    from core_fields [OF this] f v l show ?thesis by (simp add: livesOk_def)
  next
    assume "hurt g6 g7"
    with f v l d show ?thesis by (simp add: hurt_def livesOk_def)
  qed
qed

lemma reachable_livesOk: "reachable lib g \<Longrightarrow> livesOk g"
  by (induction rule: reachable.induct) (auto intro: livesOk_newGame Update_livesOk)

subsection \<open>At most one life per tick\<close>

text \<open>
  Claim C7. A tick that returns either leaves \<open>lives\<close> as it is or decrements it once
  (and then the invulnerability window is \<open>iframeTicks\<close>), whatever the number of enemies
  that overlap the player or pass the bottom; so \<open>lives\<close> goes down by at most one in every
  reachable state, and in every state where it is not the least 64-bit integer. A tick that starts with a window above 1
  costs no life, and so the tick after a tick that cost a life costs none.
\<close>

theorem C7_one_hit_per_tick:
  "Update lib inp g = Inr g' \<Longrightarrow>
     (lives g' = lives g \<or> (lives g' = decr (lives g) \<and> inv_t g' = iframeTicks)) \<and>
     (reachable lib g \<longrightarrow> lives g - 1 \<le> lives g' \<and> lives g' \<le> lives g) \<and>
     (- (2 ^ 63) < lives g \<and> lives g < 2 ^ 63 \<longrightarrow> lives g - 1 \<le> lives g' \<and> lives g' \<le> lives g) \<and>
     (1 < inv_t g \<and> inv_t g < 2 ^ 63 \<longrightarrow> lives g' = lives g) \<and>
     (lives g' \<noteq> lives g \<and> Update lib inp' g' = Inr g'' \<longrightarrow> lives g'' = lives g')"
proof (intro conjI impI)
  assume u: "Update lib inp g = Inr g'"
  show l: "lives g' = lives g \<or> (lives g' = decr (lives g) \<and> inv_t g' = iframeTicks)"
    using u by (rule Update_lives)
  { assume "reachable lib g"
    then have "livesOk g" by (rule reachable_livesOk)
    then have "decr (lives g) = lives g - 1"
      by (intro decr_small) (simp_all add: livesOk_def startLives_def)
    with l show "lives g - 1 \<le> lives g'" "lives g' \<le> lives g" by auto }
  { assume "- (2 ^ 63) < lives g \<and> lives g < 2 ^ 63"
    then have "decr (lives g) = lives g - 1" by (intro decr_small) simp_all
    with l show "lives g - 1 \<le> lives g'" "lives g' \<le> lives g" by auto }
  { assume "1 < inv_t g \<and> inv_t g < 2 ^ 63"
    with u show "lives g' = lives g" by (intro Update_invulnerable [OF u]) simp_all }
  { assume a: "lives g' \<noteq> lives g \<and> Update lib inp' g' = Inr g''"
    with l have "inv_t g' = iframeTicks" by simp
    then have "1 < inv_t g'" "inv_t g' < 2 ^ 63" by (simp_all add: iframeTicks_def)
    with a show "lives g'' = lives g'" by (intro Update_invulnerable [of lib inp' g' g'']) simp_all }
qed

theorem C7_one_hit_per_tick_witness:
  "length (enemies crowded) = 2 \<and> lives crowded = 2 \<and> - (2 ^ 63) < lives crowded \<and>
   lives crowded < 2 ^ 63 \<and>
   after (Update aabb noKeys crowded) lives = Some 1 \<and>
   after (Update aabb noKeys crowded) inv_t = Some 60 \<and>
   after (run aabb [noKeys, noKeys] crowded) lives = Some 1 \<and>
   reachable aabb (newGame (\<lambda>_. 0) None) \<and>
   (\<exists>g'. Update aabb noKeys (newGame (\<lambda>_. 0) None) = Inr g' \<and>
      lives (newGame (\<lambda>_. 0) None) - 1 \<le> lives g' \<and> lives g' \<le> lives (newGame (\<lambda>_. 0) None))"
proof -
  from crowded_ticks obtain g' g'' where
    u: "Update aabb noKeys crowded = Inr g'" "Update aabb noKeys g' = Inr g''"
    and f: "lives crowded = 2" "length (enemies crowded) = 2" "lives g' = 1" "inv_t g' = 60"
    by blast
  from C7_one_hit_per_tick [OF u(1), of noKeys g''] u f have "lives g'' = lives g'"
    by simp
  with u f have 1: "length (enemies crowded) = 2 \<and> lives crowded = 2 \<and> - (2 ^ 63) < lives crowded \<and>
   lives crowded < 2 ^ 63 \<and>
   after (Update aabb noKeys crowded) lives = Some 1 \<and>
   after (Update aabb noKeys crowded) inv_t = Some 60 \<and>
   after (run aabb [noKeys, noKeys] crowded) lives = Some 1"
    by (simp add: after_Inr)
  have r: "reachable aabb (newGame (\<lambda>_. 0) None)" by (rule reachable.start)
  from Update_total [of "newGame (\<lambda>_. 0) None" aabb noKeys] obtain h where
    h: "Update aabb noKeys (newGame (\<lambda>_. 0) None) = Inr h"
    by (auto simp: newGame_flags)
  from C7_one_hit_per_tick [OF h, of noKeys h] r
  have "lives (newGame (\<lambda>_. 0) None) - 1 \<le> lives h \<and> lives h \<le> lives (newGame (\<lambda>_. 0) None)"
    by simp
  with 1 r h show ?thesis by blast
qed

subsection \<open>Bullets\<close>

lemma bulletStep_miss:
  assumes "lib (setPosition (b_sh b) (b_x b) (b_y b + b_vy b) (shapes g)) (space g) (b_sh b) = None"
  shows "bulletStep lib b (g, dead, kept) =
     (if 0 < b_y b + b_vy b + bulletSize
      then (g\<lparr>shapes := setPosition (b_sh b) (b_x b) (b_y b + b_vy b) (shapes g)\<rparr>, dead,
            kept @ [b\<lparr>b_y := b_y b + b_vy b\<rparr>])
      else (spaceRemove (b_sh b)
             (g\<lparr>shapes := setPosition (b_sh b) (b_x b) (b_y b + b_vy b) (shapes g)\<rparr>), dead, kept))"
  using assms by (simp add: bulletStep_def Let_def)

lemma bulletStep_kept:
  assumes "bulletStep lib b (g, dead, kept) = (g1, dead1, kept1)"
  shows "set (space g1) \<subseteq> set (space g) \<and>
     (kept1 = kept @ [b\<lparr>b_y := b_y b + b_vy b\<rparr>] \<and> 0 < b_y b + b_vy b + bulletSize \<or>
      kept1 = kept \<and> b_sh b \<notin> set (space g1))"
  using assms
  by (auto simp: bulletStep_def Let_def spaceRemove_def play_def split: if_splits)

lemma bulletLoop_kept:
  assumes "bulletLoop lib bs (g, dead, kept) = (g', dead', kept')"
  shows "set (space g') \<subseteq> set (space g) \<and> set kept \<subseteq> set kept' \<and>
     (\<forall>b\<in>set bs. b\<lparr>b_y := b_y b + b_vy b\<rparr> \<in> set kept' \<or> b_sh b \<notin> set (space g')) \<and>
     (\<forall>c\<in>set kept'. c \<in> set kept \<or> 0 < b_y c + bulletSize)"
  using assms
proof (induction bs arbitrary: g dead kept)
  case Nil
  then show ?case by simp
next
  case (Cons b bs)
  obtain g1 dead1 kept1 where s: "bulletStep lib b (g, dead, kept) = (g1, dead1, kept1)"
    by (cases "bulletStep lib b (g, dead, kept)")
  with Cons.prems have l: "bulletLoop lib bs (g1, dead1, kept1) = (g', dead', kept')" by simp
  note ih = Cons.IH [OF l]
  note st = bulletStep_kept [OF s]
  from st ih have 1: "set (space g') \<subseteq> set (space g)" by blast
  from st ih have 2: "set kept \<subseteq> set kept'" by auto
  from st ih have 3: "b\<lparr>b_y := b_y b + b_vy b\<rparr> \<in> set kept' \<or> b_sh b \<notin> set (space g')"
    by auto
  have 4: "\<forall>c\<in>set kept'. c \<in> set kept \<or> 0 < b_y c + bulletSize"
  proof
    fix c
    assume "c \<in> set kept'"
    with ih have "c \<in> set kept1 \<or> 0 < b_y c + bulletSize" by blast
    with st show "c \<in> set kept \<or> 0 < b_y c + bulletSize" by auto
  qed
  from 1 2 3 4 ih show ?case by simp
qed

text \<open>
  Claim C4, as stated, fails on the top edge: the bullet of \<open>grazing\<close> hits nothing and
  ends the tick with \<open>y + size = 0\<close>, which is not \<open>y + size < 0\<close>, and it is removed.
\<close>

theorem C4_boundary_counterexample:
  "bullets grazing = [\<lparr>b_x = 227, b_y = - 20, b_vy = bulletSpeed, b_sh = 1\<rparr>] \<and>
   aabb (setPosition 1 227 (- 20 + bulletSpeed) (shapes grazing)) (space grazing) 1 = None \<and>
   \<not> (- 20 + bulletSpeed + bulletSize < 0) \<and>
   bullets (fst (moveBullets aabb grazing)) = [] \<and>
   after (Update aabb noKeys grazing) bullets = Some [] \<and>
   after (Update aabb noKeys grazing) space = Some [0]"
  by (simp add: grazing_def scene_defs tick_defs after_def)

text \<open>
  Claim C4, amended. A bullet that hits nothing is kept exactly when \<open>y + size > 0\<close>
  after its move. When it is not kept, that pass of the loop takes its shape out of the
  space and changes nothing else than the position of the shape: no sound, no
  counter, no entry in \<open>dead\<close>. After the bullet loop every bullet kept has
  \<open>y + size > 0\<close>, and every bullet of the tick is either kept, moved, or its shape is
  out of the space.
\<close>

theorem C4_projectile_exit:
  "(lib (setPosition (b_sh b) (b_x b) (b_y b + b_vy b) (shapes g)) (space g) (b_sh b) = None \<longrightarrow>
      bulletStep lib b (g, dead, kept) =
        (if 0 < b_y b + b_vy b + bulletSize
         then (g\<lparr>shapes := setPosition (b_sh b) (b_x b) (b_y b + b_vy b) (shapes g)\<rparr>, dead,
               kept @ [b\<lparr>b_y := b_y b + b_vy b\<rparr>])
         else (g\<lparr>shapes := setPosition (b_sh b) (b_x b) (b_y b + b_vy b) (shapes g),
                 space := removeAll (b_sh b) (space g)\<rparr>, dead, kept))) \<and>
   (\<forall>c\<in>set (bullets (fst (moveBullets lib g))). 0 < b_y c + bulletSize) \<and>
   (\<forall>c\<in>set (bullets g).
      c\<lparr>b_y := b_y c + b_vy c\<rparr> \<in> set (bullets (fst (moveBullets lib g))) \<or>
      b_sh c \<notin> set (space (fst (moveBullets lib g))))"
proof (intro conjI impI)
  assume "lib (setPosition (b_sh b) (b_x b) (b_y b + b_vy b) (shapes g)) (space g) (b_sh b) = None"
  with bulletStep_miss [of lib b g dead kept] show "bulletStep lib b (g, dead, kept) =
        (if 0 < b_y b + b_vy b + bulletSize
         then (g\<lparr>shapes := setPosition (b_sh b) (b_x b) (b_y b + b_vy b) (shapes g)\<rparr>, dead,
               kept @ [b\<lparr>b_y := b_y b + b_vy b\<rparr>])
         else (g\<lparr>shapes := setPosition (b_sh b) (b_x b) (b_y b + b_vy b) (shapes g),
                 space := removeAll (b_sh b) (space g)\<rparr>, dead, kept))"
    by (simp add: spaceRemove_def)
next
  obtain g' dead' kept' where l: "bulletLoop lib (bullets g) (g, {}, []) = (g', dead', kept')"
    by (cases "bulletLoop lib (bullets g) (g, {}, [])")
  then have m: "fst (moveBullets lib g) = g'\<lparr>bullets := kept'\<rparr>"
    by (simp add: moveBullets_def)
  note k = bulletLoop_kept [OF l]
  from k m show "\<forall>c\<in>set (bullets (fst (moveBullets lib g))). 0 < b_y c + bulletSize"
    by simp
  from k m show "\<forall>c\<in>set (bullets g).
      c\<lparr>b_y := b_y c + b_vy c\<rparr> \<in> set (bullets (fst (moveBullets lib g))) \<or>
      b_sh c \<notin> set (space (fst (moveBullets lib g)))"
    by simp
qed

theorem C4_projectile_exit_witness:
  "aabb (setPosition 1 227 (- 20 + bulletSpeed) (shapes grazing)) (space grazing) 1 = None \<and>
   - 20 + bulletSpeed + bulletSize = 0 \<and>
   bulletStep aabb \<lparr>b_x = 227, b_y = - 20, b_vy = bulletSpeed, b_sh = 1\<rparr> (grazing, {}, []) =
     (grazing\<lparr>shapes := setPosition 1 227 (- 20 + bulletSpeed) (shapes grazing), space := [0]\<rparr>,
      {}, []) \<and>
   bullets cruising = [\<lparr>b_x = 227, b_y = 100, b_vy = bulletSpeed, b_sh = 1\<rparr>] \<and>
   bullets (fst (moveBullets aabb cruising)) = [\<lparr>b_x = 227, b_y = 94, b_vy = bulletSpeed, b_sh = 1\<rparr>] \<and>
   space (fst (moveBullets aabb cruising)) = [0, 1]"
proof -
  have n: "aabb (setPosition 1 227 (- 20 + bulletSpeed) (shapes grazing)) (space grazing) 1 = None"
    by (simp add: grazing_def scene_defs tick_defs)
  have sp: "removeAll 1 (space grazing) = [0]" "- 20 + bulletSpeed + bulletSize = 0"
    by (simp_all add: grazing_def scene_defs bulletSpeed_def bulletSize_def)
  have c: "bullets cruising = [\<lparr>b_x = 227, b_y = 100, b_vy = bulletSpeed, b_sh = 1\<rparr>]"
    "bullets (fst (moveBullets aabb cruising)) = [\<lparr>b_x = 227, b_y = 94, b_vy = bulletSpeed, b_sh = 1\<rparr>]"
    "space (fst (moveBullets aabb cruising)) = [0, 1]"
    by (simp_all add: cruising_def scene_defs tick_defs)
  from C4_projectile_exit [of aabb "\<lparr>b_x = 227, b_y = - 20, b_vy = bulletSpeed, b_sh = 1\<rparr>"
      grazing "{}" "[]"] n sp
  have "bulletStep aabb \<lparr>b_x = 227, b_y = - 20, b_vy = bulletSpeed, b_sh = 1\<rparr> (grazing, {}, []) =
     (grazing\<lparr>shapes := setPosition 1 227 (- 20 + bulletSpeed) (shapes grazing), space := [0]\<rparr>,
      {}, [])"
    by simp
  with n sp c show ?thesis by simp
qed


subsection \<open>Enemies\<close>

lemma removeDead:
  "e_sh e \<in> dead \<Longrightarrow> removeDeadOrEscaped dead e (g, kept) = (spaceRemove (e_sh e) g, kept)"
  by (simp add: removeDeadOrEscaped_def)

lemma enemyTouch_none:
  "inv_t g \<noteq> 0 \<or> lib (shapes g) (space g) (playerSh g) = None \<Longrightarrow> enemyTouch lib g = g"
  by (auto simp: enemyTouch_def)

lemma enemyStep_space:
  assumes "enemyStep lib dead e (g, kept) = (g1, kept1)"
  shows "set (space g1) \<subseteq> set (space g) \<and>
     (kept1 = kept @ [e\<lparr>e_y := e_y e + e_vy e\<rparr>] \<and> e_sh e \<notin> dead \<or>
      kept1 = kept \<and> e_sh e \<notin> set (space g1))"
  using assms
  by (auto simp: enemyStep_unfold removeDeadOrEscaped_def enemyTouch_def loseLife_def Let_def
      spaceRemove_def play_def split: if_splits)

lemma enemyLoop_space:
  assumes "enemyLoop lib dead es (g, kept) = (g', kept')"
  shows "set (space g') \<subseteq> set (space g) \<and>
     (\<forall>e\<in>set es. e_sh e \<in> dead \<longrightarrow> e_sh e \<notin> set (space g')) \<and>
     (\<forall>c\<in>set kept'. c \<in> set kept \<or> e_sh c \<notin> dead)"
  using assms
proof (induction es arbitrary: g kept)
  case Nil
  then show ?case by simp
next
  case (Cons e es)
  obtain g1 kept1 where s: "enemyStep lib dead e (g, kept) = (g1, kept1)"
    by (cases "enemyStep lib dead e (g, kept)")
  with Cons.prems have l: "enemyLoop lib dead es (g1, kept1) = (g', kept')" by simp
  note ih = Cons.IH [OF l]
  note st = enemyStep_space [OF s]
  from st ih have 1: "set (space g') \<subseteq> set (space g)" by blast
  from st ih have 2: "e_sh e \<in> dead \<longrightarrow> e_sh e \<notin> set (space g')" by auto
  from st ih have 3: "\<forall>c\<in>set kept'. c \<in> set kept \<or> e_sh c \<notin> dead" by auto
  from 1 2 3 ih show ?case by simp
qed

text \<open>
  Claim C6. For an enemy whose shape is in \<open>dead\<close>, the removal part of the loop body
  takes the shape out of the space, does not keep the enemy and does nothing else,
  whatever its position; \<^verbatim>\<open>loseLife\<close> is called there only for an enemy that is not
  in \<open>dead\<close> and is past the bottom. When no enemy is found on the player (or the window
  is open) the whole pass for a dead enemy changes only the shape's position and the
  space. After the enemy loop no dead enemy is in the space or among the enemies.
\<close>

theorem C6_kill_before_boundary:
  "(e_sh e \<in> dead \<longrightarrow>
      removeDeadOrEscaped dead e (g, kept) = (g\<lparr>space := removeAll (e_sh e) (space g)\<rparr>, kept)) \<and>
   (e_sh e \<in> dead \<and>
    (inv_t g \<noteq> 0 \<or>
     lib (setPosition (e_sh e) (e_x e) (e_y e + e_vy e) (shapes g)) (space g) (playerSh g) = None) \<longrightarrow>
      enemyStep lib dead e (g, kept) =
        (g\<lparr>shapes := setPosition (e_sh e) (e_x e) (e_y e + e_vy e) (shapes g),
           space := removeAll (e_sh e) (space g)\<rparr>, kept)) \<and>
   (e_sh e \<notin> dead \<and> screenH < e_y e \<longrightarrow>
      removeDeadOrEscaped dead e (g, kept) =
        (loseLife (g\<lparr>space := removeAll (e_sh e) (space g)\<rparr>), kept)) \<and>
   (\<forall>c\<in>set (enemies g). e_sh c \<in> dead \<longrightarrow>
      e_sh c \<notin> set (space (moveEnemies lib (g, dead))) \<and>
      e_sh c \<notin> e_sh ` set (enemies (moveEnemies lib (g, dead))))"
proof (intro conjI impI)
  assume "e_sh e \<in> dead"
  then show "removeDeadOrEscaped dead e (g, kept) = (g\<lparr>space := removeAll (e_sh e) (space g)\<rparr>, kept)"
    by (simp add: removeDead spaceRemove_def)
next
  assume a: "e_sh e \<in> dead \<and>
    (inv_t g \<noteq> 0 \<or>
     lib (setPosition (e_sh e) (e_x e) (e_y e + e_vy e) (shapes g)) (space g) (playerSh g) = None)"
  define g1 where "g1 = g\<lparr>shapes := setPosition (e_sh e) (e_x e) (e_y e + e_vy e) (shapes g)\<rparr>"
  from a have "inv_t g1 \<noteq> 0 \<or> lib (shapes g1) (space g1) (playerSh g1) = None"
    by (simp add: g1_def)
  then have "enemyTouch lib g1 = g1" by (rule enemyTouch_none)
  with a show "enemyStep lib dead e (g, kept) =
        (g\<lparr>shapes := setPosition (e_sh e) (e_x e) (e_y e + e_vy e) (shapes g),
           space := removeAll (e_sh e) (space g)\<rparr>, kept)"
    by (simp add: enemyStep_unfold removeDead spaceRemove_def g1_def)
next
  assume "e_sh e \<notin> dead \<and> screenH < e_y e"
  then show "removeDeadOrEscaped dead e (g, kept) =
        (loseLife (g\<lparr>space := removeAll (e_sh e) (space g)\<rparr>), kept)"
    by (simp add: removeDeadOrEscaped_def spaceRemove_def)
next
  obtain g' kept' where l: "enemyLoop lib dead (enemies g) (g, []) = (g', kept')"
    by (cases "enemyLoop lib dead (enemies g) (g, [])")
  then have m: "moveEnemies lib (g, dead) = g'\<lparr>enemies := kept'\<rparr>"
    by (simp add: moveEnemies_def)
  from enemyLoop_space [OF l] m
  show "\<forall>c\<in>set (enemies g). e_sh c \<in> dead \<longrightarrow>
      e_sh c \<notin> set (space (moveEnemies lib (g, dead))) \<and>
      e_sh c \<notin> e_sh ` set (enemies (moveEnemies lib (g, dead)))"
    by auto
qed

theorem C6_kill_before_boundary_witness:
  "e_sh escapee \<in> {1} \<and> screenH < e_y escapee + e_vy escapee \<and> inv_t atBottom = 0 \<and>
   aabb (setPosition (e_sh escapee) (e_x escapee) (e_y escapee + e_vy escapee) (shapes atBottom))
     (space atBottom) (playerSh atBottom) = None \<and>
   enemies atBottom = [escapee] \<and> space atBottom = [0, 1] \<and> lives atBottom = 2 \<and>
   lives (fst (enemyStep aabb {1} escapee (atBottom, []))) = 2 \<and>
   space (fst (enemyStep aabb {1} escapee (atBottom, []))) = [0] \<and>
   snd (enemyStep aabb {1} escapee (atBottom, [])) = [] \<and>
   played (fst (enemyStep aabb {1} escapee (atBottom, []))) = [] \<and>
   lives (fst (enemyStep aabb {} escapee (atBottom, []))) = 1 \<and>
   space (moveEnemies aabb (atBottom, {1})) = [0] \<and>
   enemies (moveEnemies aabb (atBottom, {1})) = [] \<and>
   lives (moveEnemies aabb (atBottom, {1})) = 2"
proof -
  have n: "aabb (setPosition (e_sh escapee) (e_x escapee) (e_y escapee + e_vy escapee)
      (shapes atBottom)) (space atBottom) (playerSh atBottom) = None"
    by (simp add: atBottom_def escapee_def scene_defs tick_defs)
  have f: "e_sh escapee \<in> {1}" "screenH < e_y escapee + e_vy escapee" "inv_t atBottom = 0"
    "enemies atBottom = [escapee]" "space atBottom = [0, 1]" "lives atBottom = 2"
    "played atBottom = []"
    by (simp_all add: atBottom_def escapee_def scene_defs tick_defs)
  have o: "lives (fst (enemyStep aabb {} escapee (atBottom, []))) = 1"
    "space (moveEnemies aabb (atBottom, {1})) = [0]"
    "enemies (moveEnemies aabb (atBottom, {1})) = []"
    "lives (moveEnemies aabb (atBottom, {1})) = 2"
    by (simp_all add: atBottom_def escapee_def scene_defs tick_defs)
  from C6_kill_before_boundary [of escapee "{1}" atBottom "[]" aabb] n f
  have "enemyStep aabb {1} escapee (atBottom, []) =
     (atBottom\<lparr>shapes := setPosition (e_sh escapee) (e_x escapee) (e_y escapee + e_vy escapee)
         (shapes atBottom), space := removeAll (e_sh escapee) (space atBottom)\<rparr>, [])"
    by simp
  with n f o show ?thesis by (simp add: escapee_def)
qed

subsection \<open>Won and lost at once\<close>

text \<open>
  Claim C8 fails on the code: in \<open>lastStand\<close> the bullet fired in the tick kills the
  last enemy of the last round while that enemy reaches the player, who has no life
  left; the enemy loop sets \<open>over\<close> and the round check then sets \<open>win\<close>. The
  bullet's box \<open>[214, 240] \<times> [525, 551]\<close> crosses the enemy's,
  \<open>[203.5, 241.5] \<times> [512.4, 550.4]\<close>, and the enemy's box after its move,
  \<open>[203.5, 241.5] \<times> [515, 553]\<close>, crosses the player's, \<open>[205, 240] \<times> [552.5, 587.5]\<close>.
\<close>

theorem C8_win_and_over:
  "win lastStand = False \<and> over lastStand = False \<and> roundIdx lastStand = 5 \<and>
   roundKills lastStand = 41 \<and> lives lastStand = 0 \<and> inv_t lastStand = 0 \<and>
   length (enemies lastStand) = 1 \<and>
   after (Update aabb (noKeys(KeySpace := True)) lastStand) win = Some True \<and>
   after (Update aabb (noKeys(KeySpace := True)) lastStand) over = Some True \<and>
   after (Update aabb (noKeys(KeySpace := True)) lastStand) lives = Some (- 1) \<and>
   after (Update aabb (noKeys(KeySpace := True)) lastStand) roundIdx = Some 6 \<and>
   after (Update aabb (noKeys(KeySpace := True)) lastStand) enemies = Some []"
  by (simp add: lastStand_def scene_defs tick_defs after_def)

subsection \<open>The spawn interval\<close>

lemma spawnInterval_ge: "minSpawnInterval \<le> spawnInterval r"
  by (simp add: spawnInterval_def Let_def)

lemma spawnInterval_small:
  assumes "0 \<le> r" "r \<le> 2 ^ 62 + 16"
  shows "spawnInterval r = max minSpawnInterval (baseSpawnInterval - 2 * r)"
proof (cases "r < 2 ^ 62")
  case True
  with assms have a: "wrap64 (2 * r) = 2 * r" by (intro wrap64_id) (simp add: int64_def)
  from True assms have "wrap64 (baseSpawnInterval - 2 * r) = baseSpawnInterval - 2 * r"
    by (intro wrap64_id) (simp add: int64_def baseSpawnInterval_def)
  with a show ?thesis
    by (simp add: spawnInterval_def Let_def max_def)
next
  case False
  with assms have a: "wrap64 (2 * r) = 2 * r - 2 ^ 64"
    by (intro wrap64_above) simp_all
  from False assms have "wrap64 (baseSpawnInterval - (2 * r - 2 ^ 64)) = baseSpawnInterval - (2 * r - 2 ^ 64) - 2 ^ 64"
    by (intro wrap64_above) (simp_all add: baseSpawnInterval_def)
  with a False show ?thesis
    by (simp add: spawnInterval_def Let_def max_def baseSpawnInterval_def minSpawnInterval_def)
qed

lemma spawnInterval_mono:
  assumes "0 \<le> r" "r \<le> s" "s \<le> 2 ^ 62 + 16"
  shows "spawnInterval s \<le> spawnInterval r"
proof -
  have "spawnInterval r = max minSpawnInterval (baseSpawnInterval - 2 * r)"
    using assms by (intro spawnInterval_small) simp_all
  moreover have "spawnInterval s = max minSpawnInterval (baseSpawnInterval - 2 * s)"
    using assms by (intro spawnInterval_small) simp_all
  ultimately show ?thesis using assms by simp
qed

lemma spawnInterval_beyond:
  assumes "2 ^ 62 + 16 < r" "r < 2 ^ 63"
  shows "spawnInterval r = 32 - 2 * r + 2 ^ 64"
proof -
  from assms have a: "wrap64 (2 * r) = 2 * r - 2 ^ 64"
    by (intro wrap64_above) simp_all
  from assms have "wrap64 (baseSpawnInterval - (2 * r - 2 ^ 64)) = baseSpawnInterval - (2 * r - 2 ^ 64)"
    by (intro wrap64_id) (simp add: int64_def baseSpawnInterval_def)
  with a assms show ?thesis
    by (simp add: spawnInterval_def Let_def baseSpawnInterval_def minSpawnInterval_def)
qed

text \<open>
  Claim C9, as stated, fails where \<^verbatim>\<open>2*r\<close> overflows: at \<open>r = 3 * 2 ^ 61\<close> the
  function returns \<open>2 ^ 62 + 32\<close>, not the floor.
\<close>

theorem C9_spawnInterval_overflow:
  "spawnInterval (3 * 2 ^ 61) \<noteq> max minSpawnInterval (baseSpawnInterval - 2 * (3 * 2 ^ 61))"
  by (simp add: spawnInterval_def wrap64_def baseSpawnInterval_def minSpawnInterval_def)

text \<open>
  Claim C9, amended. \<open>spawnInterval r\<close> is at least \<open>minSpawnInterval = 12\<close> for every
  \<open>r\<close>. For \<open>0 \<le> r \<le> 2 ^ 62 + 16\<close>, which covers every round index of the game, it
  equals \<open>max minSpawnInterval (baseSpawnInterval - 2 * r)\<close>, and on that range it does
  not increase with \<open>r\<close>.
\<close>

theorem C9_spawnInterval:
  "minSpawnInterval = 12 \<and> minSpawnInterval \<le> spawnInterval r \<and>
   (0 \<le> r \<and> r \<le> 2 ^ 62 + 16 \<longrightarrow>
      spawnInterval r = max minSpawnInterval (baseSpawnInterval - 2 * r)) \<and>
   (0 \<le> r \<and> r \<le> s \<and> s \<le> 2 ^ 62 + 16 \<longrightarrow> spawnInterval s \<le> spawnInterval r)"
  using spawnInterval_ge [of r] spawnInterval_small [of r] spawnInterval_mono [of r s]
  by (simp add: minSpawnInterval_def)

theorem C9_spawnInterval_witness:
  "(0::int) \<le> 3 \<and> (3::int) \<le> 2 ^ 62 + 16 \<and> (3::int) \<le> 8 \<and> (8::int) \<le> 2 ^ 62 + 16 \<and>
   spawnInterval 3 = 26 \<and> spawnInterval 8 = 16 \<and> spawnInterval 8 \<le> spawnInterval 3 \<and>
   spawnInterval 3 = max minSpawnInterval (baseSpawnInterval - 2 * 3)"
  using C9_spawnInterval [of 3 8]
  by (simp add: spawnInterval_def wrap64_def baseSpawnInterval_def minSpawnInterval_def)

end
